theory Spec2Isabelle
  imports Complex_Main "HOL-Library.AList"
begin

section \<open>Decoded documents and the Python operations the pipeline applies to them\<close>

text \<open>
  A decoded specification is the value that \<^verbatim>\<open>json.loads\<close> or \<^verbatim>\<open>yaml.safe_load\<close>
  returns. It is modelled by the datatype \<open>json\<close>: \<^verbatim>\<open>None\<close>, booleans, integers, floats,
  strings, lists, and dicts as association lists in insertion order. The key of a dict entry
  is any value: YAML gives integer keys for unquoted status codes, and so on.

  A float is given by its exact value together with the text that \<^verbatim>\<open>repr\<close> prints for it
  (the decoder provides both; \<open>0.0\<close> and \<open>-0.0\<close> have the same value and different texts).
  A NaN carries the identity of its object: Python's \<^verbatim>\<open>in\<close> and its dict lookup test
  \<^verbatim>\<open>x is y\<close> before \<^verbatim>\<open>x == y\<close>, and a NaN is equal to nothing, itself included.
  The other values that YAML tags can build (timestamps, binary data, sets) are outside the
  model. Strings are lists of 8-bit characters.

  The source is dynamically typed and never checks the shape of what it reads, so every
  Python operation it performs is modelled on all of \<open>json\<close>, with the exception that Python
  raises as a value of type \<open>exn\<close>.
\<close>

datatype pyfloat = Finite rat string | PosInf | NegInf | NaN nat

datatype json =
    JNull
  | JBool bool
  | JInt int
  | JFloat pyfloat
  | JStr string
  | JList "json list"
  | JDict "(json \<times> json) list"

datatype exn = AttributeError | KeyError | TypeError | IndexError

definition bindE :: "exn + 'a \<Rightarrow> ('a \<Rightarrow> exn + 'b) \<Rightarrow> exn + 'b" where
  "bindE m f = (case m of Inl e \<Rightarrow> Inl e | Inr x \<Rightarrow> f x)"

text \<open>
  A \<^verbatim>\<open>for\<close> loop whose body appends to \<^verbatim>\<open>self.changes\<close>: the body returns what it
  appends, the loop returns everything appended, in order, and stops at the first exception.
\<close>

fun for_each :: "('a \<Rightarrow> exn + 'b list) \<Rightarrow> 'a list \<Rightarrow> exn + 'b list" where
  "for_each body [] = Inr []"
| "for_each body (x # xs) =
     bindE (body x) (\<lambda>cs. bindE (for_each body xs) (\<lambda>ds. Inr (cs @ ds)))"

text \<open>Truthiness (\<^verbatim>\<open>if x\<close>, \<^verbatim>\<open>not x\<close>, \<^verbatim>\<open>x or y\<close>).\<close>

fun truthy :: "json \<Rightarrow> bool" where
  "truthy JNull = False"
| "truthy (JBool b) = b"
| "truthy (JInt i) = (i \<noteq> 0)"
| "truthy (JFloat f) = (case f of Finite q r \<Rightarrow> q \<noteq> 0 | _ \<Rightarrow> True)"
| "truthy (JStr s) = (s \<noteq> [])"
| "truthy (JList xs) = (xs \<noteq> [])"
| "truthy (JDict d) = (d \<noteq> [])"

fun is_dict :: "json \<Rightarrow> bool" where
  "is_dict (JDict d) = True"
| "is_dict _ = False"

text \<open>Lists and dicts are unhashable: using one as a key raises \<^verbatim>\<open>TypeError\<close>.\<close>

fun hashable :: "json \<Rightarrow> bool" where
  "hashable (JList xs) = False"
| "hashable (JDict d) = False"
| "hashable _ = True"

text \<open>
  What a dict or a set knows of a key: two hashable values are the same key exactly when
  they are the same object or are equal. \<^verbatim>\<open>True\<close>, \<^verbatim>\<open>1\<close> and \<^verbatim>\<open>1.0\<close> are one key; a
  NaN is the same key as itself only.
\<close>

datatype hkey = KNone | KNum rat | KInf bool | KNaN nat | KStr string | KUnhashable

fun key_of :: "json \<Rightarrow> hkey" where
  "key_of JNull = KNone"
| "key_of (JBool b) = KNum (if b then 1 else 0)"
| "key_of (JInt i) = KNum (of_int i)"
| "key_of (JFloat f) =
     (case f of Finite q r \<Rightarrow> KNum q | PosInf \<Rightarrow> KInf True | NegInf \<Rightarrow> KInf False
      | NaN i \<Rightarrow> KNaN i)"
| "key_of (JStr s) = KStr s"
| "key_of (JList xs) = KUnhashable"
| "key_of (JDict d) = KUnhashable"

text \<open>
  \<^verbatim>\<open>x is y or x == y\<close>, the test that \<^verbatim>\<open>in\<close> applies to the elements of a list. Lists
  are compared element by element and dicts key by key, whatever the order of insertion,
  with the same test on their elements.
\<close>

fun py_same :: "json \<Rightarrow> json \<Rightarrow> bool" where
  "py_same (JList xs) y = (case y of JList ys \<Rightarrow> list_all2 py_same xs ys | _ \<Rightarrow> False)"
| "py_same (JDict d) y =
     (case y of
        JDict d' \<Rightarrow>
          (\<forall>(k, v) \<in> set d. \<exists>(k', v') \<in> set d'. key_of k = key_of k' \<and> py_same v v') \<and>
          (\<forall>(k', v') \<in> set d'. \<exists>(k, v) \<in> set d. key_of k = key_of k' \<and> py_same v v')
      | _ \<Rightarrow> False)"
| "py_same x y = (key_of x = key_of y)"

text \<open>
  The entries of a dict: lookup, membership and assignment go by the key. \<open>keyed d\<close> is
  the table that the dict keeps, from keys to values.
\<close>

definition keyed :: "(json \<times> json) list \<Rightarrow> (hkey \<times> json) list" where
  "keyed d = map (\<lambda>kv. (key_of (fst kv), snd kv)) d"

definition dict_find :: "(json \<times> json) list \<Rightarrow> json \<Rightarrow> json option" where
  "dict_find d k = map_of (keyed d) (key_of k)"

definition dict_contains :: "(json \<times> json) list \<Rightarrow> json \<Rightarrow> bool" where
  "dict_contains d k = (key_of k \<in> set (map fst (keyed d)))"

text \<open>
  \<^verbatim>\<open>d[k] = v\<close>: the value is replaced in place when the key is there already (the dict
  keeps the key object it has), and the entry is added at the end otherwise.
\<close>

fun dict_set :: "(json \<times> json) list \<Rightarrow> json \<Rightarrow> json \<Rightarrow> (json \<times> json) list" where
  "dict_set [] k v = [(k, v)]"
| "dict_set ((k', v') # d) k v =
     (if key_of k' = key_of k then (k', v) # d else (k', v') # dict_set d k v)"

text \<open>\<^verbatim>\<open>d.get(k, default)\<close> for a string \<open>k\<close>.\<close>

definition dict_get :: "(json \<times> json) list \<Rightarrow> string \<Rightarrow> json \<Rightarrow> json" where
  "dict_get d k dflt = (case dict_find d (JStr k) of None \<Rightarrow> dflt | Some v \<Rightarrow> v)"

text \<open>\<^verbatim>\<open>k in d\<close> for a dict whose keys are known to be strings.\<close>

definition has_key :: "(string \<times> json) list \<Rightarrow> string \<Rightarrow> bool" where
  "has_key d k = (k \<in> set (map fst d))"

text \<open>\<^verbatim>\<open>x.get(k, default)\<close> and \<^verbatim>\<open>x.items()\<close>: only a dict has these methods.\<close>

fun py_get :: "json \<Rightarrow> string \<Rightarrow> json \<Rightarrow> exn + json" where
  "py_get (JDict d) k dflt = Inr (dict_get d k dflt)"
| "py_get _ k dflt = Inl AttributeError"

fun py_items :: "json \<Rightarrow> exn + (json \<times> json) list" where
  "py_items (JDict d) = Inr d"
| "py_items _ = Inl AttributeError"

text \<open>\<^verbatim>\<open>for x in c\<close>: the keys of a dict, the elements of a list, the characters of a string.\<close>

fun py_iter :: "json \<Rightarrow> exn + json list" where
  "py_iter (JDict d) = Inr (map fst d)"
| "py_iter (JList xs) = Inr xs"
| "py_iter (JStr s) = Inr (map (\<lambda>c. JStr [c]) s)"
| "py_iter _ = Inl TypeError"

text \<open>\<^verbatim>\<open>s.startswith(p)\<close> and \<^verbatim>\<open>t in s\<close> for strings.\<close>

definition startswith :: "string \<Rightarrow> string \<Rightarrow> bool" where
  "startswith s p = (take (length p) s = p)"

fun is_substring :: "string \<Rightarrow> string \<Rightarrow> bool" where
  "is_substring t [] = (t = [])"
| "is_substring t (c # s) = (startswith (c # s) t \<or> is_substring t s)"

text \<open>
  \<^verbatim>\<open>x in c\<close>: key membership for a dict (the key is hashed first), identity or equality
  with an element for a list, substring for a string.
\<close>

fun py_in :: "json \<Rightarrow> json \<Rightarrow> exn + bool" where
  "py_in x (JDict d) = (if \<not> hashable x then Inl TypeError else Inr (dict_contains d x))"
| "py_in x (JList ys) = Inr (list_ex (\<lambda>y. py_same y x) ys)"
| "py_in x (JStr s) = (case x of JStr t \<Rightarrow> Inr (is_substring t s) | _ \<Rightarrow> Inl TypeError)"
| "py_in x _ = Inl TypeError"

text \<open>\<^verbatim>\<open>c[k]\<close>. An index is an integer or a bool; a negative index counts from the end.\<close>

fun py_index :: "json \<Rightarrow> int option" where
  "py_index (JInt i) = Some i"
| "py_index (JBool b) = Some (if b then 1 else 0)"
| "py_index _ = None"

definition seq_getitem :: "'a list \<Rightarrow> json \<Rightarrow> exn + 'a" where
  "seq_getitem xs k =
     (case py_index k of
        None \<Rightarrow> Inl TypeError
      | Some i \<Rightarrow>
          if 0 \<le> i \<and> i < int (length xs) then Inr (xs ! nat i)
          else if i < 0 \<and> - int (length xs) \<le> i then Inr (xs ! nat (int (length xs) + i))
          else Inl IndexError)"

fun py_getitem :: "json \<Rightarrow> json \<Rightarrow> exn + json" where
  "py_getitem (JDict d) k =
     (if \<not> hashable k then Inl TypeError
      else case dict_find d k of None \<Rightarrow> Inl KeyError | Some v \<Rightarrow> Inr v)"
| "py_getitem (JList xs) k = seq_getitem xs k"
| "py_getitem (JStr s) k = bindE (seq_getitem s k) (\<lambda>c. Inr (JStr [c]))"
| "py_getitem _ k = Inl TypeError"

text \<open>\<^verbatim>\<open>set(x)\<close>: \<open>x\<close> must be iterable and its elements hashable.\<close>

definition py_set :: "json \<Rightarrow> exn + json list" where
  "py_set x = bindE (py_iter x) (\<lambda>xs. if list_all hashable xs then Inr xs else Inl TypeError)"

definition set_contains :: "json \<Rightarrow> json list \<Rightarrow> exn + bool" where
  "set_contains x s =
     (if \<not> hashable x then Inl TypeError else Inr (key_of x \<in> set (map key_of s)))"

section \<open>Strings\<close>

text \<open>
  \<^verbatim>\<open>str.lower\<close>, \<^verbatim>\<open>str.upper\<close> on the ASCII letters. The source applies them to
  dictionary keys and format names and compares the result with ASCII words only
  (\<^verbatim>\<open>k.lower() in ("get", ...)\<close>), and upper-cases only keys that passed that test, so the
  case mapping of other characters is never observed.
\<close>

definition char_lower :: "char \<Rightarrow> char" where
  "char_lower c =
     (let n = (of_char c :: nat) in if 65 \<le> n \<and> n \<le> 90 then char_of (n + 32) else c)"

definition char_upper :: "char \<Rightarrow> char" where
  "char_upper c =
     (let n = (of_char c :: nat) in if 97 \<le> n \<and> n \<le> 122 then char_of (n - 32) else c)"

definition lower :: "string \<Rightarrow> string" where
  "lower s = map char_lower s"

definition upper :: "string \<Rightarrow> string" where
  "upper s = map char_upper s"

text \<open>\<^verbatim>\<open>str.strip()\<close>: the characters below 256 for which \<^verbatim>\<open>str.isspace\<close> holds.\<close>

definition is_space :: "char \<Rightarrow> bool" where
  "is_space c =
     (let n = (of_char c :: nat) in (9 \<le> n \<and> n \<le> 13) \<or> (28 \<le> n \<and> n \<le> 32) \<or> n = 133 \<or> n = 160)"

definition strip :: "string \<Rightarrow> string" where
  "strip s = rev (dropWhile is_space (rev (dropWhile is_space s)))"

text \<open>
  \<^verbatim>\<open>str(x)\<close>: a string is itself, anything else is printed as \<^verbatim>\<open>repr\<close> prints it.
\<close>

fun join :: "string \<Rightarrow> string list \<Rightarrow> string" where
  "join sep [] = []"
| "join sep [x] = x"
| "join sep (x # y # ys) = x @ sep @ join sep (y # ys)"

function nat_digits :: "nat \<Rightarrow> string" where
  "nat_digits n =
     (if n < 10 then [char_of (48 + n)] else nat_digits (n div 10) @ [char_of (48 + n mod 10)])"
  by pat_completeness auto
termination
  by (relation "measure id") auto

definition int_str :: "int \<Rightarrow> string" where
  "int_str i = (if i < 0 then CHR ''-'' # nat_digits (nat (- i)) else nat_digits (nat i))"

definition hex_digit :: "nat \<Rightarrow> char" where
  "hex_digit n = (if n < 10 then char_of (48 + n) else char_of (87 + n))"

definition repr_char :: "char \<Rightarrow> char \<Rightarrow> string" where
  "repr_char quote c =
     (let n = (of_char c :: nat) in
      if c = quote \<or> c = CHR 0x5C then [CHR 0x5C, c]
      else if n = 9 then [CHR 0x5C, CHR ''t'']
      else if n = 10 then [CHR 0x5C, CHR ''n'']
      else if n = 13 then [CHR 0x5C, CHR ''r'']
      else if n < 32 \<or> n = 127 \<or> (128 \<le> n \<and> n \<le> 160) \<or> n = 173
        then [CHR 0x5C, CHR ''x'', hex_digit (n div 16), hex_digit (n mod 16)]
      else [c])"

definition repr_str :: "string \<Rightarrow> string" where
  "repr_str s =
     (let quote = (if CHR 0x27 \<in> set s \<and> CHR 0x22 \<notin> set s then CHR 0x22 else CHR 0x27)
      in quote # concat (map (repr_char quote) s) @ [quote])"

definition float_repr :: "pyfloat \<Rightarrow> string" where
  "float_repr f =
     (case f of Finite q r \<Rightarrow> r | PosInf \<Rightarrow> ''inf'' | NegInf \<Rightarrow> ''-inf'' | NaN i \<Rightarrow> ''nan'')"

fun py_repr :: "json \<Rightarrow> string" where
  "py_repr JNull = ''None''"
| "py_repr (JBool b) = (if b then ''True'' else ''False'')"
| "py_repr (JInt i) = int_str i"
| "py_repr (JFloat f) = float_repr f"
| "py_repr (JStr s) = repr_str s"
| "py_repr (JList xs) = ''['' @ join '', '' (map py_repr xs) @ '']''"
| "py_repr (JDict d) =
     ''{'' @ join '', '' (map (\<lambda>(k, v). py_repr k @ '': '' @ py_repr v) d) @ ''}''"

text \<open>Also what an f-string prints for \<^verbatim>\<open>{x}\<close>.\<close>

fun py_str :: "json \<Rightarrow> string" where
  "py_str (JStr s) = s"
| "py_str x = py_repr x"


section \<open>Rules, changes and the Classifier\<close>

definition BREAKING_RULES :: "(string \<times> string) list" where
  "BREAKING_RULES =
     [(''endpoint_removed'', ''Endpoint removed''),
      (''method_removed'', ''HTTP method removed''),
      (''required_parameter_added'', ''Required request parameter added''),
      (''parameter_removed'', ''Parameter removed''),
      (''parameter_type_changed'', ''Parameter type changed''),
      (''required_field_added'', ''Required request body field added''),
      (''field_removed'', ''Request/response field removed''),
      (''field_type_changed'', ''Field type changed''),
      (''enum_value_removed'', ''Enum value removed''),
      (''success_response_removed'', ''Success response (2xx) removed'')]"

definition POTENTIALLY_BREAKING_RULES :: "(string \<times> string) list" where
  "POTENTIALLY_BREAKING_RULES =
     [(''non_2xx_response_removed'', ''Non-2xx response removed''),
      (''enum_value_added'', ''Enum value added''),
      (''default_value_removed'', ''Default value removed'')]"

definition NON_BREAKING_RULES :: "(string \<times> string) list" where
  "NON_BREAKING_RULES =
     [(''endpoint_added'', ''New endpoint''),
      (''method_added'', ''New HTTP method''),
      (''optional_parameter_added'', ''New optional parameter''),
      (''optional_field_added'', ''New optional request field''),
      (''response_field_added'', ''New response field''),
      (''metadata_changed'', ''Metadata-only changes'')]"

definition classify_change :: "string \<Rightarrow> string" where
  "classify_change rule_type =
     (if rule_type \<in> set (map fst BREAKING_RULES) then ''breaking''
      else if rule_type \<in> set (map fst POTENTIALLY_BREAKING_RULES) then ''potentially_breaking''
      else if rule_type \<in> set (map fst NON_BREAKING_RULES) then ''non_breaking''
      else ''potentially_breaking'')"

text \<open>\<^verbatim>\<open>a or b\<close> on the result of \<^verbatim>\<open>dict.get\<close>: \<^verbatim>\<open>None\<close> and the empty string are falsy.\<close>

definition or_else :: "string option \<Rightarrow> string \<Rightarrow> string" where
  "or_else a b = (case a of Some (c # cs) \<Rightarrow> c # cs | _ \<Rightarrow> b)"

definition get_rule_message :: "string \<Rightarrow> string" where
  "get_rule_message rule_type =
     or_else (map_of BREAKING_RULES rule_type)
       (or_else (map_of POTENTIALLY_BREAKING_RULES rule_type)
         (or_else (map_of NON_BREAKING_RULES rule_type) ''Unknown change''))"

text \<open>
  The dataclass \<^verbatim>\<open>Change\<close>. Its annotations say \<^verbatim>\<open>str\<close> for \<^verbatim>\<open>path\<close> and
  \<^verbatim>\<open>Optional[str]\<close> for \<^verbatim>\<open>field\<close>, but nothing checks them: the Differ stores there
  whatever iterating the document yields, so both hold a \<open>json\<close> value. The method is always
  the upper-cased key of a path item, a string.
\<close>

record change =
  type :: string
  category :: string
  path :: json
  "method" :: "string option"
  field :: "json option"
  message :: string

definition classify_endpoint_removal :: "json \<Rightarrow> change" where
  "classify_endpoint_removal p =
     \<lparr>type = ''breaking'', category = ''endpoint'', path = p, method = None, field = None,
      message = get_rule_message ''endpoint_removed''\<rparr>"

definition classify_endpoint_addition :: "json \<Rightarrow> change" where
  "classify_endpoint_addition p =
     \<lparr>type = ''non_breaking'', category = ''endpoint'', path = p, method = None, field = None,
      message = get_rule_message ''endpoint_added''\<rparr>"

definition classify_method_removal :: "json \<Rightarrow> string \<Rightarrow> change" where
  "classify_method_removal p m =
     \<lparr>type = ''breaking'', category = ''method'', path = p, method = Some (upper m),
      field = None, message = get_rule_message ''method_removed''\<rparr>"

definition classify_method_addition :: "json \<Rightarrow> string \<Rightarrow> change" where
  "classify_method_addition p m =
     \<lparr>type = ''non_breaking'', category = ''method'', path = p, method = Some (upper m),
      field = None, message = get_rule_message ''method_added''\<rparr>"

definition classify_parameter_change :: "json \<Rightarrow> string \<Rightarrow> json \<Rightarrow> string \<Rightarrow> bool \<Rightarrow> change" where
  "classify_parameter_change p m param_name change_type is_required =
     (if change_type = ''removed'' then
        \<lparr>type = ''breaking'', category = ''parameter'', path = p, method = Some (upper m),
         field = Some param_name, message = get_rule_message ''parameter_removed''\<rparr>
      else if change_type = ''added'' then
        (if is_required then
           \<lparr>type = ''breaking'', category = ''parameter'', path = p, method = Some (upper m),
            field = Some param_name, message = get_rule_message ''required_parameter_added''\<rparr>
         else
           \<lparr>type = ''non_breaking'', category = ''parameter'', path = p, method = Some (upper m),
            field = Some param_name, message = get_rule_message ''optional_parameter_added''\<rparr>)
      else if change_type = ''type_changed'' then
        \<lparr>type = ''breaking'', category = ''parameter'', path = p, method = Some (upper m),
         field = Some param_name, message = get_rule_message ''parameter_type_changed''\<rparr>
      else
        \<lparr>type = ''potentially_breaking'', category = ''parameter'', path = p,
         method = Some (upper m), field = Some param_name, message = ''Parameter changed''\<rparr>)"

definition classify_schema_change :: "json \<Rightarrow> string \<Rightarrow> json \<Rightarrow> string \<Rightarrow> bool \<Rightarrow> change" where
  "classify_schema_change p m field_name change_type is_required =
     (if change_type = ''removed'' then
        \<lparr>type = ''breaking'', category = ''schema'', path = p, method = Some (upper m),
         field = Some field_name, message = get_rule_message ''field_removed''\<rparr>
      else if change_type = ''added'' then
        (if is_required then
           \<lparr>type = ''breaking'', category = ''schema'', path = p, method = Some (upper m),
            field = Some field_name, message = get_rule_message ''required_field_added''\<rparr>
         else
           \<lparr>type = ''non_breaking'', category = ''schema'', path = p, method = Some (upper m),
            field = Some field_name, message = get_rule_message ''optional_field_added''\<rparr>)
      else if change_type = ''type_changed'' then
        \<lparr>type = ''breaking'', category = ''schema'', path = p, method = Some (upper m),
         field = Some field_name, message = get_rule_message ''field_type_changed''\<rparr>
      else
        \<lparr>type = ''potentially_breaking'', category = ''schema'', path = p,
         method = Some (upper m), field = Some field_name, message = ''Field changed''\<rparr>)"

text \<open>
  \<^verbatim>\<open>status_code\<close> is the key under which the document has the response, whatever its
  type: \<^verbatim>\<open>status_code.startswith("2")\<close> raises \<^verbatim>\<open>AttributeError\<close> when it is not a string.
  The method is always a key that \<^verbatim>\<open>k.lower()\<close> accepted, a string.
\<close>

definition classify_response_change :: "json \<Rightarrow> string \<Rightarrow> json \<Rightarrow> string \<Rightarrow> exn + change" where
  "classify_response_change p m status_code change_type =
     (if change_type = ''removed'' then
        (case status_code of
           JStr s \<Rightarrow>
             Inr (if startswith s ''2'' then
                    \<lparr>type = ''breaking'', category = ''response'', path = p,
                     method = Some (upper m),
                     field = Some (JStr (''Response '' @ py_str status_code)),
                     message = get_rule_message ''success_response_removed''\<rparr>
                  else
                    \<lparr>type = ''potentially_breaking'', category = ''response'', path = p,
                     method = Some (upper m),
                     field = Some (JStr (''Response '' @ py_str status_code)),
                     message = get_rule_message ''non_2xx_response_removed''\<rparr>)
         | _ \<Rightarrow> Inl AttributeError)
      else if change_type = ''added'' then
        Inr \<lparr>type = ''non_breaking'', category = ''response'', path = p, method = Some (upper m),
             field = Some (JStr (''Response '' @ py_str status_code)),
             message = ''New response status''\<rparr>
      else
        Inr \<lparr>type = ''potentially_breaking'', category = ''response'', path = p,
             method = Some (upper m), field = Some (JStr (''Response '' @ py_str status_code)),
             message = ''Response changed''\<rparr>)"


section \<open>Normalizer\<close>

definition methods :: "string list" where
  "methods = [''get'', ''post'', ''put'', ''delete'', ''patch'', ''options'', ''head'']"

text \<open>
  The inner loop of \<^verbatim>\<open>_normalize_paths_openapi3\<close> and \<^verbatim>\<open>_normalize_paths_swagger2\<close>
  (the two bodies are the same text): \<open>acc\<close> is \<^verbatim>\<open>normalized[path]\<close>. A key of the path
  item that is not a string has no \<^verbatim>\<open>lower\<close>: \<^verbatim>\<open>method.lower()\<close> raises.
\<close>

fun normalize_path_item :: "(json \<times> json) list \<Rightarrow> (json \<times> json) list \<Rightarrow> exn + (json \<times> json) list" where
  "normalize_path_item acc [] = Inr acc"
| "normalize_path_item acc ((m, operation) # rest) =
     (case m of
        JStr s \<Rightarrow>
          normalize_path_item
            (if lower s \<in> set methods then dict_set acc (JStr (lower s)) operation else acc) rest
      | _ \<Rightarrow> Inl AttributeError)"

fun normalize_paths_loop :: "(json \<times> json) list \<Rightarrow> (json \<times> json) list \<Rightarrow> exn + (json \<times> json) list" where
  "normalize_paths_loop normalized [] = Inr normalized"
| "normalize_paths_loop normalized ((p, path_item) # rest) =
     bindE (py_items path_item) (\<lambda>items.
     bindE (normalize_path_item [] items) (\<lambda>item.
       normalize_paths_loop (dict_set normalized p (JDict item)) rest))"

definition normalize_paths_openapi3 :: "json \<Rightarrow> exn + json" where
  "normalize_paths_openapi3 paths =
     bindE (py_items paths) (\<lambda>items.
     bindE (normalize_paths_loop [] items) (\<lambda>normalized. Inr (JDict normalized)))"

definition normalize_paths_swagger2 :: "json \<Rightarrow> exn + json" where
  "normalize_paths_swagger2 paths =
     bindE (py_items paths) (\<lambda>items.
     bindE (normalize_paths_loop [] items) (\<lambda>normalized. Inr (JDict normalized)))"

definition normalize_openapi_3 :: "json \<Rightarrow> exn + json" where
  "normalize_openapi_3 spec =
     bindE (py_get spec ''openapi'' (JStr ''3.0.0'')) (\<lambda>version.
     bindE (py_get spec ''info'' (JDict [])) (\<lambda>info.
     bindE (py_get spec ''paths'' (JDict [])) (\<lambda>paths.
     bindE (normalize_paths_openapi3 paths) (\<lambda>npaths.
     bindE (py_get spec ''components'' (JDict [])) (\<lambda>components.
       Inr (JDict [(JStr ''version'', version), (JStr ''info'', info), (JStr ''paths'', npaths),
                   (JStr ''components'', components)]))))))"

definition normalize_swagger_2 :: "json \<Rightarrow> exn + json" where
  "normalize_swagger_2 spec =
     bindE (py_get spec ''swagger'' (JStr ''2.0'')) (\<lambda>version.
     bindE (py_get spec ''info'' (JDict [])) (\<lambda>info.
     bindE (py_get spec ''paths'' (JDict [])) (\<lambda>paths.
     bindE (normalize_paths_swagger2 paths) (\<lambda>npaths.
     bindE (py_get spec ''definitions'' (JDict [])) (\<lambda>definitions.
       Inr (JDict [(JStr ''version'', version), (JStr ''info'', info), (JStr ''paths'', npaths),
                   (JStr ''definitions'', definitions)]))))))"

definition normalize :: "json \<Rightarrow> exn + json" where
  "normalize spec =
     bindE (py_in (JStr ''swagger'') spec) (\<lambda>is_swagger_2.
     bindE (py_in (JStr ''openapi'') spec) (\<lambda>is_openapi_3.
       if is_swagger_2 then normalize_swagger_2 spec
       else if is_openapi_3 then normalize_openapi_3 spec
       else Inr spec))"

text \<open>
  \<^verbatim>\<open>params[param_in][param_name] = info\<close>, for the dict
  \<^verbatim>\<open>params = {"query": {}, "path": {}, "header": {}, "body": {}}\<close> of
  \<^verbatim>\<open>extract_parameters\<close>: the first subscript hashes its key and must find it, the second
  one hashes its key and stores the entry.
\<close>

definition params_set :: "(json \<times> json) list \<Rightarrow> json \<Rightarrow> json \<Rightarrow> json \<Rightarrow> exn + (json \<times> json) list" where
  "params_set params param_in param_name info =
     bindE (py_getitem (JDict params) param_in) (\<lambda>in_params.
       case in_params of
         JDict d \<Rightarrow>
           if \<not> hashable param_name then Inl TypeError
           else Inr (dict_set params param_in (JDict (dict_set d param_name info)))
       | _ \<Rightarrow> Inl TypeError)"

fun extract_parameters_loop :: "bool \<Rightarrow> (json \<times> json) list \<Rightarrow> json list \<Rightarrow> exn + (json \<times> json) list" where
  "extract_parameters_loop is_openapi3 params [] = Inr params"
| "extract_parameters_loop is_openapi3 params (param # rest) =
     bindE (py_get param ''in'' JNull) (\<lambda>param_in.
     bindE (py_get param ''name'' JNull) (\<lambda>param_name.
       if truthy param_in \<and> truthy param_name then
         bindE (py_get param ''required'' (JBool False)) (\<lambda>required.
         bindE (if is_openapi3 then py_get param ''schema'' (JDict [])
                else py_get param ''type'' JNull) (\<lambda>schema_or_type.
         bindE (params_set params param_in param_name
                  (JDict [(JStr ''required'', required),
                          (JStr (if is_openapi3 then ''schema'' else ''type''), schema_or_type)]))
           (\<lambda>params'. extract_parameters_loop is_openapi3 params' rest)))
       else extract_parameters_loop is_openapi3 params rest))"

fun extract_body_loop :: "json \<Rightarrow> (json \<times> json) list \<Rightarrow> (json \<times> json) list \<Rightarrow> exn + (json \<times> json) list" where
  "extract_body_loop request_body params [] = Inr params"
| "extract_body_loop request_body params ((content_type, content_spec) # rest) =
     bindE (py_get content_spec ''schema'' (JDict [])) (\<lambda>schema.
     bindE (py_get request_body ''required'' (JBool False)) (\<lambda>required.
     bindE (params_set params (JStr ''body'') content_type
              (JDict [(JStr ''required'', required), (JStr ''schema'', schema)]))
       (\<lambda>params'. extract_body_loop request_body params' rest)))"

definition extract_parameters :: "json \<Rightarrow> bool \<Rightarrow> exn + json" where
  "extract_parameters operation is_openapi3 =
     (let params = [(JStr ''query'', JDict []), (JStr ''path'', JDict []),
                    (JStr ''header'', JDict []), (JStr ''body'', JDict [])] in
      if is_openapi3 then
        bindE (py_get operation ''parameters'' (JList [])) (\<lambda>parameters.
        bindE (py_iter parameters) (\<lambda>ps.
        bindE (extract_parameters_loop True params ps) (\<lambda>params1.
        bindE (py_get operation ''requestBody'' (JDict [])) (\<lambda>request_body.
          if truthy request_body then
            bindE (py_get request_body ''content'' (JDict [])) (\<lambda>content.
            bindE (py_items content) (\<lambda>items.
            bindE (extract_body_loop request_body params1 items) (\<lambda>params2.
              Inr (JDict params2))))
          else Inr (JDict params1)))))
      else
        bindE (py_get operation ''parameters'' (JList [])) (\<lambda>parameters.
        bindE (py_iter parameters) (\<lambda>ps.
        bindE (extract_parameters_loop False params ps) (\<lambda>params1.
          Inr (JDict params1)))))"

definition extract_responses :: "json \<Rightarrow> exn + json" where
  "extract_responses operation =
     bindE (py_get operation ''responses'' (JDict [])) (\<lambda>responses.
     bindE (py_items responses) (\<lambda>items.
       Inr (JDict (fold (\<lambda>(status_code, response) acc. dict_set acc status_code response)
                     items []))))"

section \<open>Differ\<close>

text \<open>
  Every \<^verbatim>\<open>_diff_*\<close> method appends to \<^verbatim>\<open>self.changes\<close> and returns nothing. Here it
  returns the changes it appends, in order, or the exception that ends it; \<open>diff\<close>
  concatenates them in the order of the calls, which is the final content of
  \<^verbatim>\<open>self.changes\<close> (emptied at the start of each call to \<^verbatim>\<open>diff\<close>).
\<close>

definition diff_endpoints :: "json \<Rightarrow> json \<Rightarrow> exn + change list" where
  "diff_endpoints old_paths new_paths =
     bindE (py_iter old_paths) (\<lambda>olds.
     bindE (for_each (\<lambda>p. bindE (py_in p new_paths) (\<lambda>found.
              Inr (if \<not> found then [classify_endpoint_removal p] else []))) olds) (\<lambda>removed.
     bindE (py_iter new_paths) (\<lambda>news.
     bindE (for_each (\<lambda>p. bindE (py_in p old_paths) (\<lambda>found.
              Inr (if \<not> found then [classify_endpoint_addition p] else []))) news) (\<lambda>added.
       Inr (removed @ added)))))"

text \<open>
  The three loops of \<^verbatim>\<open>_diff_parameters\<close> for one location. \<^verbatim>\<open>is_required\<close> is
  whatever the document has under \<^verbatim>\<open>required\<close>; the Classifier only tests its truth.
\<close>

definition diff_parameters_in :: "json \<Rightarrow> string \<Rightarrow> json \<Rightarrow> json \<Rightarrow> exn + change list" where
  "diff_parameters_in p m old_in_params new_in_params =
     bindE (py_iter old_in_params) (\<lambda>old_names.
     bindE (for_each (\<lambda>param_name. bindE (py_in param_name new_in_params) (\<lambda>found.
              Inr (if \<not> found then [classify_parameter_change p m param_name ''removed'' False]
                   else []))) old_names) (\<lambda>removed.
     bindE (py_iter new_in_params) (\<lambda>new_names.
     bindE (for_each (\<lambda>param_name. bindE (py_in param_name old_in_params) (\<lambda>found.
              if \<not> found then
                bindE (py_getitem new_in_params param_name) (\<lambda>new_param.
                bindE (py_get new_param ''required'' (JBool False)) (\<lambda>is_required.
                  Inr [classify_parameter_change p m param_name ''added'' (truthy is_required)]))
              else Inr [])) new_names) (\<lambda>added.
     bindE (for_each (\<lambda>param_name. bindE (py_in param_name new_in_params) (\<lambda>found.
              if found then
                bindE (py_getitem old_in_params param_name) (\<lambda>old_param.
                bindE (py_getitem new_in_params param_name) (\<lambda>new_param.
                bindE (py_get old_param ''schema'' JNull) (\<lambda>old_schema.
                bindE (if truthy old_schema then Inr old_schema
                       else py_get old_param ''type'' (JStr [])) (\<lambda>old_value.
                bindE (py_get new_param ''schema'' JNull) (\<lambda>new_schema.
                bindE (if truthy new_schema then Inr new_schema
                       else py_get new_param ''type'' (JStr [])) (\<lambda>new_value.
                  let old_type = py_str old_value; new_type = py_str new_value
                  in Inr (if old_type \<noteq> new_type \<and> old_type \<noteq> [] \<and> new_type \<noteq> []
                          then [classify_parameter_change p m param_name ''type_changed'' False]
                          else [])))))))
              else Inr [])) old_names) (\<lambda>changed.
       Inr (removed @ added @ changed))))))"

definition diff_parameters :: "json \<Rightarrow> string \<Rightarrow> json \<Rightarrow> json \<Rightarrow> bool \<Rightarrow> exn + change list" where
  "diff_parameters p m old_op new_op is_openapi3 =
     bindE (extract_parameters old_op is_openapi3) (\<lambda>old_params.
     bindE (extract_parameters new_op is_openapi3) (\<lambda>new_params.
       for_each (\<lambda>param_in.
           bindE (py_get old_params param_in (JDict [])) (\<lambda>old_in_params.
           bindE (py_get new_params param_in (JDict [])) (\<lambda>new_in_params.
             diff_parameters_in p m old_in_params new_in_params)))
         [''query'', ''path'', ''header'']))"

definition diff_schema :: "json \<Rightarrow> string \<Rightarrow> json \<Rightarrow> json \<Rightarrow> exn + change list" where
  "diff_schema p m old_schema new_schema =
     bindE (py_get old_schema ''properties'' (JDict [])) (\<lambda>old_props.
     bindE (py_get new_schema ''properties'' (JDict [])) (\<lambda>new_props.
     bindE (py_get old_schema ''required'' (JList [])) (\<lambda>old_req.
     bindE (py_set old_req) (\<lambda>old_required.
     bindE (py_get new_schema ''required'' (JList [])) (\<lambda>new_req.
     bindE (py_set new_req) (\<lambda>new_required.
     bindE (py_iter old_props) (\<lambda>old_names.
     bindE (for_each (\<lambda>prop_name. bindE (py_in prop_name new_props) (\<lambda>found.
              Inr (if \<not> found then [classify_schema_change p m prop_name ''removed'' False]
                   else []))) old_names) (\<lambda>removed.
     bindE (py_iter new_props) (\<lambda>new_names.
     bindE (for_each (\<lambda>prop_name. bindE (py_in prop_name old_props) (\<lambda>found.
              if \<not> found then
                bindE (set_contains prop_name new_required) (\<lambda>is_required.
                  Inr [classify_schema_change p m prop_name ''added'' is_required])
              else Inr [])) new_names) (\<lambda>added.
     bindE (for_each (\<lambda>prop_name. bindE (py_in prop_name new_props) (\<lambda>found.
              if found then
                bindE (py_getitem old_props prop_name) (\<lambda>old_prop.
                bindE (py_get old_prop ''type'' (JStr [])) (\<lambda>old_ty.
                bindE (py_getitem new_props prop_name) (\<lambda>new_prop.
                bindE (py_get new_prop ''type'' (JStr [])) (\<lambda>new_ty.
                  let old_prop_type = py_str old_ty; new_prop_type = py_str new_ty
                  in Inr (if old_prop_type \<noteq> new_prop_type \<and> old_prop_type \<noteq> []
                             \<and> new_prop_type \<noteq> []
                          then [classify_schema_change p m prop_name ''type_changed'' False]
                          else [])))))
              else Inr [])) old_names) (\<lambda>changed.
       Inr (removed @ added @ changed))))))))))))"

text \<open>The loop returns at the first content type whose schema is truthy.\<close>

fun extract_schema_loop :: "(json \<times> json) list \<Rightarrow> exn + json" where
  "extract_schema_loop [] = Inr (JDict [])"
| "extract_schema_loop ((content_type, content_spec) # rest) =
     bindE (py_get content_spec ''schema'' (JDict [])) (\<lambda>schema.
       if truthy schema then Inr schema else extract_schema_loop rest)"

definition extract_schema_from_request_body :: "json \<Rightarrow> exn + json" where
  "extract_schema_from_request_body request_body =
     (if \<not> truthy request_body then Inr (JDict [])
      else bindE (py_get request_body ''content'' (JDict [])) (\<lambda>content.
           bindE (py_items content) (\<lambda>items. extract_schema_loop items)))"

definition diff_request_body :: "json \<Rightarrow> string \<Rightarrow> json \<Rightarrow> json \<Rightarrow> exn + change list" where
  "diff_request_body p m old_op new_op =
     bindE (py_get old_op ''requestBody'' (JDict [])) (\<lambda>old_body.
     bindE (py_get new_op ''requestBody'' (JDict [])) (\<lambda>new_body.
       if \<not> truthy old_body \<and> \<not> truthy new_body then Inr []
       else
         bindE (extract_schema_from_request_body old_body) (\<lambda>old_schema.
         bindE (extract_schema_from_request_body new_body) (\<lambda>new_schema.
           if \<not> truthy old_schema \<or> \<not> truthy new_schema then Inr []
           else diff_schema p m old_schema new_schema))))"

definition diff_responses :: "json \<Rightarrow> string \<Rightarrow> json \<Rightarrow> json \<Rightarrow> exn + change list" where
  "diff_responses p m old_op new_op =
     bindE (extract_responses old_op) (\<lambda>old_responses.
     bindE (extract_responses new_op) (\<lambda>new_responses.
     bindE (py_iter old_responses) (\<lambda>old_codes.
     bindE (for_each (\<lambda>status_code. bindE (py_in status_code new_responses) (\<lambda>found.
              if \<not> found then
                bindE (classify_response_change p m status_code ''removed'') (\<lambda>c. Inr [c])
              else Inr [])) old_codes) (\<lambda>removed.
     bindE (py_iter new_responses) (\<lambda>new_codes.
     bindE (for_each (\<lambda>status_code. bindE (py_in status_code old_responses) (\<lambda>found.
              if \<not> found then
                bindE (classify_response_change p m status_code ''added'') (\<lambda>c. Inr [c])
              else Inr [])) new_codes) (\<lambda>added.
       Inr (removed @ added)))))))"

definition diff_operation :: "json \<Rightarrow> string \<Rightarrow> json \<Rightarrow> json \<Rightarrow> exn + change list" where
  "diff_operation p m old_op new_op =
     bindE (py_in (JStr ''parameters'') old_op) (\<lambda>has_parameters.
     bindE (if has_parameters then Inr True else py_in (JStr ''requestBody'') old_op)
       (\<lambda>is_openapi3.
     bindE (diff_parameters p m old_op new_op is_openapi3) (\<lambda>params.
     bindE (if is_openapi3 then diff_request_body p m old_op new_op else Inr []) (\<lambda>body.
     bindE (diff_responses p m old_op new_op) (\<lambda>responses.
       Inr (params @ body @ responses))))))"

text \<open>
  The dict comprehension that selects the methods of a path item. The test is
  \<^verbatim>\<open>isinstance(v, dict) and k.lower() in (...)\<close>: the key of an entry whose value is not a
  dict is not looked at, and the key of an entry whose value is a dict must be a string. The
  keys of a Python dict are distinct, so the comprehension keeps the selected items as they
  are, and every key it keeps is a string.
\<close>

fun select_methods :: "(json \<times> json) list \<Rightarrow> exn + (string \<times> json) list" where
  "select_methods [] = Inr []"
| "select_methods ((k, v) # items) =
     (if \<not> is_dict v then select_methods items
      else case k of
             JStr s \<Rightarrow>
               bindE (select_methods items) (\<lambda>selected.
                 Inr (if lower s \<in> set methods then (s, v) # selected else selected))
           | _ \<Rightarrow> Inl AttributeError)"

text \<open>\<^verbatim>\<open>old_methods[method]\<close>, for the dict of the selected methods.\<close>

definition methods_getitem :: "(string \<times> json) list \<Rightarrow> string \<Rightarrow> exn + json" where
  "methods_getitem selected m =
     (case map_of selected m of None \<Rightarrow> Inl KeyError | Some v \<Rightarrow> Inr v)"

text \<open>The body of the loop of \<^verbatim>\<open>_diff_operations\<close> for a path that both documents have.\<close>

definition diff_path :: "json \<Rightarrow> json \<Rightarrow> json \<Rightarrow> exn + change list" where
  "diff_path p old_path_item new_path_item =
     bindE (py_items old_path_item) (\<lambda>old_items.
     bindE (select_methods old_items) (\<lambda>old_methods.
     bindE (py_items new_path_item) (\<lambda>new_items.
     bindE (select_methods new_items) (\<lambda>new_methods.
     bindE (for_each (\<lambda>m. Inr
              (if \<not> has_key new_methods m then [classify_method_removal p m] else []))
            (map fst old_methods)) (\<lambda>removed.
     bindE (for_each (\<lambda>m. Inr
              (if \<not> has_key old_methods m then [classify_method_addition p m] else []))
            (map fst new_methods)) (\<lambda>added.
     bindE (for_each (\<lambda>m.
              if has_key new_methods m then
                bindE (methods_getitem old_methods m) (\<lambda>old_op.
                bindE (methods_getitem new_methods m) (\<lambda>new_op.
                  diff_operation p m old_op new_op))
              else Inr [])
            (map fst old_methods)) (\<lambda>changed.
       Inr (removed @ added @ changed))))))))"

definition diff_operations :: "json \<Rightarrow> json \<Rightarrow> exn + change list" where
  "diff_operations old_paths new_paths =
     bindE (py_iter old_paths) (\<lambda>olds.
       for_each (\<lambda>p. bindE (py_in p new_paths) (\<lambda>found.
           if \<not> found then Inr []
           else
             bindE (py_getitem old_paths p) (\<lambda>old_path_item.
             bindE (py_getitem new_paths p) (\<lambda>new_path_item.
               diff_path p old_path_item new_path_item)))) olds)"

definition diff :: "json \<Rightarrow> json \<Rightarrow> exn + change list" where
  "diff old_spec new_spec =
     bindE (normalize old_spec) (\<lambda>old_normalized.
     bindE (normalize new_spec) (\<lambda>new_normalized.
     bindE (py_get old_normalized ''paths'' (JDict [])) (\<lambda>old_paths.
     bindE (py_get new_normalized ''paths'' (JDict [])) (\<lambda>new_paths.
     bindE (diff_endpoints old_paths new_paths) (\<lambda>endpoints.
     bindE (diff_operations old_paths new_paths) (\<lambda>operations.
       Inr (endpoints @ operations)))))))"


section \<open>Parser\<close>

text \<open>
  \<^verbatim>\<open>json.loads\<close> and \<^verbatim>\<open>yaml.safe_load\<close> are library functions: \<open>parse\<close> takes them as
  parameters. A decoder returns the decoded value, or raises its own syntax error
  (\<^verbatim>\<open>JSONDecodeError\<close>, \<^verbatim>\<open>YAMLError\<close>), or raises something else. Nothing is assumed
  of what a decoder returns for a text.
\<close>

datatype decoded = Decoded json | DecodeError string | OtherError string

datatype parse_error =
    EmptyInput
  | InvalidJSON string
  | InvalidYAML string
  | FailedToParse string
  | NotAnObject
  | MissingVersion
  | MissingInfo
  | MissingPaths

definition validate_spec :: "(json \<times> json) list \<Rightarrow> parse_error + unit" where
  "validate_spec spec =
     (let openapi_version = dict_get spec ''openapi'' JNull;
          swagger_version = dict_get spec ''swagger'' JNull
      in if \<not> truthy openapi_version \<and> \<not> truthy swagger_version then Inl MissingVersion
         else if \<not> truthy (dict_get spec ''info'' JNull) then Inl MissingInfo
         else if \<not> truthy (dict_get spec ''paths'' JNull) then Inl MissingPaths
         else Inr ())"

definition parse :: "(string \<Rightarrow> decoded) \<Rightarrow> (string \<Rightarrow> decoded) \<Rightarrow> string \<Rightarrow> string \<Rightarrow> parse_error + json" where
  "parse json_loads yaml_safe_load content file_type =
     (if content = [] \<or> strip content = [] then Inl EmptyInput
      else
        case (if lower file_type = ''json'' then
                (case json_loads content of
                   Decoded v \<Rightarrow> Inr v
                 | DecodeError msg \<Rightarrow> Inl (InvalidJSON msg)
                 | OtherError msg \<Rightarrow> Inl (FailedToParse msg))
              else if lower file_type \<in> set [''yaml'', ''yml''] then
                (case yaml_safe_load content of
                   Decoded v \<Rightarrow> Inr v
                 | DecodeError msg \<Rightarrow> Inl (InvalidYAML msg)
                 | OtherError msg \<Rightarrow> Inl (FailedToParse msg))
              else Inl (FailedToParse (''Unsupported file type: '' @ file_type)))
        of
          Inl e \<Rightarrow> Inl e
        | Inr spec \<Rightarrow>
            (case spec of
               JDict d \<Rightarrow> (case validate_spec d of Inl e \<Rightarrow> Inl e | Inr u \<Rightarrow> Inr spec)
             | _ \<Rightarrow> Inl NotAnObject))"

definition detect_format :: "string \<Rightarrow> string" where
  "detect_format content = (if startswith (strip content) ''{'' then ''json'' else ''yaml'')"

section \<open>DiffService\<close>

record summary_counts =
  breaking :: nat
  potentially_breaking :: nat
  non_breaking :: nat

record diff_result =
  summary :: summary_counts
  changes :: "change list"

fun count_changes :: "summary_counts \<Rightarrow> change list \<Rightarrow> summary_counts" where
  "count_changes s [] = s"
| "count_changes s (c # cs) =
     count_changes
       (if type c = ''breaking'' then s\<lparr>breaking := breaking s + 1\<rparr>
        else if type c = ''potentially_breaking''
          then s\<lparr>potentially_breaking := potentially_breaking s + 1\<rparr>
        else if type c = ''non_breaking'' then s\<lparr>non_breaking := non_breaking s + 1\<rparr>
        else s) cs"

definition build_result :: "change list \<Rightarrow> diff_result" where
  "build_result cs =
     \<lparr>summary = count_changes \<lparr>breaking = 0, potentially_breaking = 0, non_breaking = 0\<rparr> cs,
      changes = cs\<rparr>"

text \<open>
  \<^verbatim>\<open>compare_specs\<close> raises \<^verbatim>\<open>ValueError\<close> in two ways: for a \<^verbatim>\<open>ParseError\<close>, and for any
  other exception. A format argument that the caller leaves out is \<open>None\<close> here and takes
  the default of the signature, \<^verbatim>\<open>"json"\<close>.

  The two documents are decoded by two calls, and each call builds its own objects: decoding
  the same text twice need not give the same NaN object. So the decoders are given the
  number of the call, \<open>0\<close> for the old document and \<open>1\<close> for the new one.
\<close>

datatype value_error = ParsingError parse_error | UnexpectedError exn

definition resolve_format :: "string option \<Rightarrow> string \<Rightarrow> string" where
  "resolve_format format_arg content =
     (let fmt = (case format_arg of None \<Rightarrow> ''json'' | Some f \<Rightarrow> f)
      in if fmt = [] \<or> fmt = ''auto'' then detect_format content else fmt)"

definition compare_specs ::
  "(nat \<Rightarrow> string \<Rightarrow> decoded) \<Rightarrow> (nat \<Rightarrow> string \<Rightarrow> decoded) \<Rightarrow> string \<Rightarrow> string
     \<Rightarrow> string option \<Rightarrow> string option \<Rightarrow> value_error + diff_result" where
  "compare_specs json_loads yaml_safe_load old_content new_content old_format new_format =
     (let old_fmt = resolve_format old_format old_content;
          new_fmt = resolve_format new_format new_content
      in case parse (json_loads 0) (yaml_safe_load 0) old_content old_fmt of
           Inl e \<Rightarrow> Inl (ParsingError e)
         | Inr old_spec \<Rightarrow>
             (case parse (json_loads 1) (yaml_safe_load 1) new_content new_fmt of
                Inl e \<Rightarrow> Inl (ParsingError e)
              | Inr new_spec \<Rightarrow>
                  (case diff old_spec new_spec of
                     Inl e \<Rightarrow> Inl (UnexpectedError e)
                   | Inr cs \<Rightarrow> Inr (build_result cs))))"


section \<open>Notions used to state the properties\<close>

text \<open>
  \<open>emits P r\<close>: if the call returned, every change it appended satisfies \<open>P\<close>.
\<close>

definition emits :: "(change \<Rightarrow> bool) \<Rightarrow> exn + change list \<Rightarrow> bool" where
  "emits P r = (case r of Inl e \<Rightarrow> True | Inr cs \<Rightarrow> list_all P cs)"

text \<open>
  The changes that the Differ can build: a call of one of the seven Classifier functions,
  with a method whose lower-cased form is a recognized method.
\<close>

inductive emitted :: "change \<Rightarrow> bool" where
  endpoint_removal: "emitted (classify_endpoint_removal p)"
| endpoint_addition: "emitted (classify_endpoint_addition p)"
| method_removal: "lower m \<in> set methods \<Longrightarrow> emitted (classify_method_removal p m)"
| method_addition: "lower m \<in> set methods \<Longrightarrow> emitted (classify_method_addition p m)"
| parameter_change:
    "lower m \<in> set methods \<Longrightarrow> t \<in> {''removed'', ''added'', ''type_changed''} \<Longrightarrow>
     emitted (classify_parameter_change p m n t r)"
| schema_change:
    "lower m \<in> set methods \<Longrightarrow> t \<in> {''removed'', ''added'', ''type_changed''} \<Longrightarrow>
     emitted (classify_schema_change p m n t r)"
| response_change:
    "lower m \<in> set methods \<Longrightarrow> t \<in> {''removed'', ''added''} \<Longrightarrow>
     classify_response_change p m s t = Inr c \<Longrightarrow> emitted c"

text \<open>The paths that \<open>diff\<close> walks: those of the normalized document.\<close>

definition normalized_paths :: "json \<Rightarrow> exn + json" where
  "normalized_paths spec = bindE (normalize spec) (\<lambda>n. py_get n ''paths'' (JDict []))"

text \<open>
  The order of emission, in the words of the specification. The changes of one operation
  are its parameter changes, then its request-body (schema) changes, then its response
  changes, all carrying the path and the upper-cased method.
\<close>

definition operation_block :: "json \<Rightarrow> string \<Rightarrow> change list \<Rightarrow> bool" where
  "operation_block p m cs \<longleftrightarrow>
     (\<exists>ps bs rs. cs = ps @ bs @ rs \<and>
        list_all (\<lambda>c. category c = ''parameter'' \<and> path c = p \<and> method c = Some (upper m)) ps \<and>
        list_all (\<lambda>c. category c = ''schema'' \<and> path c = p \<and> method c = Some (upper m)) bs \<and>
        list_all (\<lambda>c. category c = ''response'' \<and> path c = p \<and> method c = Some (upper m)) rs)"

text \<open>
  The changes of one path that both documents have: the methods removed, in the order of
  the old path item; the methods added, in the order of the new one; then one operation
  block for each method of the old path item that the new one has too.
\<close>

definition path_block :: "json \<Rightarrow> (string \<times> json) list \<Rightarrow> (string \<times> json) list \<Rightarrow> change list \<Rightarrow> bool" where
  "path_block p old_methods new_methods cs \<longleftrightarrow>
     (\<exists>ops.
        cs = map (classify_method_removal p)
               (filter (\<lambda>m. \<not> has_key new_methods m) (map fst old_methods))
           @ map (classify_method_addition p)
               (filter (\<lambda>m. \<not> has_key old_methods m) (map fst new_methods))
           @ concat ops \<and>
        list_all2 (\<lambda>m ob. if has_key new_methods m then operation_block p m ob else ob = [])
          (map fst old_methods) ops)"

text \<open>The paths that a list of changes reports as removed and as added endpoints.\<close>

definition endpoint_removed_paths :: "change list \<Rightarrow> json set" where
  "endpoint_removed_paths cs =
     set (map path (filter (\<lambda>c. category c = ''endpoint'' \<and> type c = ''breaking'') cs))"

definition endpoint_added_paths :: "change list \<Rightarrow> json set" where
  "endpoint_added_paths cs =
     set (map path (filter (\<lambda>c. category c = ''endpoint'' \<and> type c = ''non_breaking'') cs))"

text \<open>
  The whole list: an endpoint-removed change for each old path that the new paths lack, in
  the order of the old document; an endpoint-added change for each new path that the old
  paths lack, in the order of the new document; then, path by path in the order of the old
  document, the block of each path that both documents have.
\<close>

definition emission_order :: "json \<Rightarrow> json \<Rightarrow> change list \<Rightarrow> bool" where
  "emission_order old_paths new_paths cs \<longleftrightarrow>
     (\<exists>olds news blocks.
        py_iter old_paths = Inr olds \<and> py_iter new_paths = Inr news \<and>
        cs = map classify_endpoint_removal (filter (\<lambda>p. py_in p new_paths = Inr False) olds)
           @ map classify_endpoint_addition (filter (\<lambda>p. py_in p old_paths = Inr False) news)
           @ concat blocks \<and>
        list_all2
          (\<lambda>p b. if py_in p new_paths = Inr True
                 then \<exists>old_items new_items old_methods new_methods.
                        py_getitem old_paths p = Inr (JDict old_items) \<and>
                        py_getitem new_paths p = Inr (JDict new_items) \<and>
                        select_methods old_items = Inr old_methods \<and>
                        select_methods new_items = Inr new_methods \<and>
                        path_block p old_methods new_methods b
                 else b = [])
          olds blocks)"

text \<open>\<open>returns r\<close>: the call raised nothing.\<close>

definition returns :: "'e + 'a \<Rightarrow> bool" where
  "returns r = (case r of Inl e \<Rightarrow> False | Inr x \<Rightarrow> True)"

text \<open>
  The method keys of the path item that a mapping of paths has for a path: the keys that
  the Differ selects there.
\<close>

definition method_keys :: "json \<Rightarrow> json \<Rightarrow> string list" where
  "method_keys paths p =
     (case py_getitem paths p of
        Inr (JDict items) \<Rightarrow> (case select_methods items of Inr selected \<Rightarrow> map fst selected | Inl e \<Rightarrow> [])
      | _ \<Rightarrow> [])"

text \<open>
  The shape that the Normalizer and the Differ take for granted and that the Parser does
  not check. The keys of a Python dict are hashable; the datatype \<open>json\<close> does not enforce
  it, so the shape says it where the code hashes a key again.

  A parameter is a mapping; when it has both a location and a name, the location is one of
  the four for which \<^verbatim>\<open>extract_parameters\<close> prepares an entry (\<^verbatim>\<open>query\<close>, \<^verbatim>\<open>path\<close>,
  \<^verbatim>\<open>header\<close>, \<^verbatim>\<open>body\<close>) and the name is hashable. The other locations that OpenAPI has
  (\<^verbatim>\<open>cookie\<close>, and \<^verbatim>\<open>formData\<close> in Swagger 2) are not among the four.
\<close>

definition param_ok :: "json \<Rightarrow> bool" where
  "param_ok param =
     (case param of
        JDict d \<Rightarrow>
          (if truthy (dict_get d ''in'' JNull) \<and> truthy (dict_get d ''name'' JNull)
           then dict_get d ''in'' JNull \<in> set (map JStr [''query'', ''path'', ''header'', ''body''])
                \<and> hashable (dict_get d ''name'' JNull)
           else True)
      | _ \<Rightarrow> False)"

definition parameters_ok :: "json \<Rightarrow> bool" where
  "parameters_ok parameters =
     (case parameters of JList ps \<Rightarrow> list_all param_ok ps | _ \<Rightarrow> False)"

text \<open>
  A schema is empty, or a mapping whose \<^verbatim>\<open>properties\<close> is a mapping of mappings and
  whose \<^verbatim>\<open>required\<close> is a list of hashable values.
\<close>

definition schema_ok :: "json \<Rightarrow> bool" where
  "schema_ok schema =
     (if truthy schema then
        (case schema of
           JDict d \<Rightarrow>
             (case dict_get d ''properties'' (JDict []) of
                JDict props \<Rightarrow> list_all (\<lambda>kv. hashable (fst kv) \<and> is_dict (snd kv)) props
              | _ \<Rightarrow> False) \<and>
             (case dict_get d ''required'' (JList []) of
                JList names \<Rightarrow> list_all hashable names
              | _ \<Rightarrow> False)
         | _ \<Rightarrow> False)
      else True)"

text \<open>
  A request body is empty, or a mapping whose \<^verbatim>\<open>content\<close> is a mapping from content types
  to mappings, each with a schema of the shape above.
\<close>

definition request_body_ok :: "json \<Rightarrow> bool" where
  "request_body_ok request_body =
     (if truthy request_body then
        (case request_body of
           JDict d \<Rightarrow>
             (case dict_get d ''content'' (JDict []) of
                JDict content \<Rightarrow>
                  list_all (\<lambda>kv. hashable (fst kv) \<and>
                                 (case snd kv of
                                    JDict content_spec \<Rightarrow>
                                      schema_ok (dict_get content_spec ''schema'' (JDict []))
                                  | _ \<Rightarrow> False)) content
              | _ \<Rightarrow> False)
         | _ \<Rightarrow> False)
      else True)"

text \<open>
  The responses are a mapping whose keys, the status codes, are strings: a status code
  written without quotes in a YAML document is an integer.
\<close>

fun is_str :: "json \<Rightarrow> bool" where
  "is_str (JStr s) = True"
| "is_str _ = False"

definition responses_ok :: "json \<Rightarrow> bool" where
  "responses_ok responses =
     (case responses of JDict rs \<Rightarrow> list_all (\<lambda>kv. is_str (fst kv)) rs | _ \<Rightarrow> False)"

text \<open>
  An operation is checked only when it is a mapping: the Differ skips any other value
  under a method key.
\<close>

definition operation_ok :: "json \<Rightarrow> bool" where
  "operation_ok operation =
     (case operation of
        JDict d \<Rightarrow>
          parameters_ok (dict_get d ''parameters'' (JList [])) \<and>
          request_body_ok (dict_get d ''requestBody'' (JDict [])) \<and>
          responses_ok (dict_get d ''responses'' (JDict []))
      | _ \<Rightarrow> True)"

text \<open>A path item is a mapping whose keys are strings.\<close>

definition path_item_ok :: "json \<Rightarrow> bool" where
  "path_item_ok path_item =
     (case path_item of
        JDict items \<Rightarrow>
          list_all (\<lambda>kv. case fst kv of
                           JStr k \<Rightarrow> (if lower k \<in> set methods then operation_ok (snd kv) else True)
                         | _ \<Rightarrow> False) items
      | _ \<Rightarrow> False)"

definition paths_ok :: "json \<Rightarrow> bool" where
  "paths_ok paths =
     (case paths of
        JDict items \<Rightarrow> list_all (\<lambda>kv. hashable (fst kv) \<and> path_item_ok (snd kv)) items
      | _ \<Rightarrow> False)"

text \<open>
  What \<^verbatim>\<open>extract_parameters\<close> maintains: the four locations are there, and every entry
  of a location has a hashable name and is a mapping.
\<close>

definition params_inv :: "(json \<times> json) list \<Rightarrow> bool" where
  "params_inv params \<longleftrightarrow>
     list_all (\<lambda>loc. case dict_find params (JStr loc) of
                        Some (JDict d) \<Rightarrow> list_all (\<lambda>kv. hashable (fst kv) \<and> is_dict (snd kv)) d
                      | _ \<Rightarrow> False)
       [''query'', ''path'', ''header'', ''body'']"

text \<open>A document of the expected shape: a mapping whose paths have it.\<close>

definition expected_shape :: "json \<Rightarrow> bool" where
  "expected_shape spec =
     (case spec of JDict d \<Rightarrow> paths_ok (dict_get d ''paths'' (JDict [])) | _ \<Rightarrow> False)"


section \<open>Basic facts about exceptions and loops\<close>

lemma bindE_Inr [simp]: "bindE (Inr x) f = f x"
  by (simp add: bindE_def)

lemma bindE_Inl [simp]: "bindE (Inl e) f = Inl e"
  by (simp add: bindE_def)

lemma bindE_eq_Inr: "bindE m f = Inr y \<longleftrightarrow> (\<exists>x. m = Inr x \<and> f x = Inr y)"
  by (cases m) simp_all

section \<open>Parser: what validation rejects\<close>

text \<open>
  Claim C6, as the code has it. \<^verbatim>\<open>_validate_spec\<close> tests the truth of
  \<^verbatim>\<open>spec.get(key)\<close>, not the presence of the key. For every decoded top-level mapping whose
  \<^verbatim>\<open>openapi\<close> or \<^verbatim>\<open>swagger\<close> value is truthy, validation fails with MissingInfo exactly
  when \<^verbatim>\<open>info\<close> is absent or falsy, and with MissingPaths exactly when \<^verbatim>\<open>info\<close> is truthy
  and \<^verbatim>\<open>paths\<close> is absent or falsy; and when validation fails, \<open>parse\<close> returns that
  failure and no document, whichever of the two decoders produced the mapping and however
  the file type is written (\<^verbatim>\<open>json\<close>, \<^verbatim>\<open>yaml\<close> or \<^verbatim>\<open>yml\<close>, in any case of letters).
\<close>

theorem validate_spec_truthiness:
  assumes "truthy (dict_get spec ''openapi'' JNull) \<or> truthy (dict_get spec ''swagger'' JNull)"
  shows "(validate_spec spec = Inl MissingInfo \<longleftrightarrow> \<not> truthy (dict_get spec ''info'' JNull)) \<and>
         (validate_spec spec = Inl MissingPaths \<longleftrightarrow>
            truthy (dict_get spec ''info'' JNull) \<and> \<not> truthy (dict_get spec ''paths'' JNull)) \<and>
         (\<forall>e json_loads yaml_safe_load content file_type.
            validate_spec spec = Inl e \<and> strip content \<noteq> [] \<and>
            (lower file_type = ''json'' \<and> json_loads content = Decoded (JDict spec) \<or>
             lower file_type \<in> {''yaml'', ''yml''} \<and>
             yaml_safe_load content = Decoded (JDict spec)) \<longrightarrow>
            parse json_loads yaml_safe_load content file_type = Inl e)"
proof -
  have "strip content \<noteq> [] \<Longrightarrow> content \<noteq> []" for content
    by (auto simp: strip_def)
  then show ?thesis
    using assms by (auto simp: validate_spec_def parse_def Let_def)
qed

theorem validate_spec_truthiness_witness:
  "truthy (dict_get [(JStr ''openapi'', JStr ''3.0.0''), (JStr ''paths'', JDict [(JStr ''/a'', JDict [])])]
     ''openapi'' JNull) \<and>
   validate_spec [(JStr ''openapi'', JStr ''3.0.0''), (JStr ''paths'', JDict [(JStr ''/a'', JDict [])])]
     = Inl MissingInfo \<and>
   parse (\<lambda>s. Decoded (JDict [(JStr ''openapi'', JStr ''3.0.0''), (JStr ''paths'', JDict [(JStr ''/a'', JDict [])])]))
     (\<lambda>s. DecodeError []) ''{}'' ''JSON'' = Inl MissingInfo \<and>
   parse (\<lambda>s. DecodeError [])
     (\<lambda>s. Decoded (JDict [(JStr ''openapi'', JStr ''3.0.0''), (JStr ''paths'', JDict [(JStr ''/a'', JDict [])])]))
     ''openapi: 3.0.0'' ''yml'' = Inl MissingInfo"
proof -
  let ?d = "[(JStr ''openapi'', JStr ''3.0.0''), (JStr ''paths'', JDict [(JStr ''/a'', JDict [])])]"
  have h: "truthy (dict_get ?d ''openapi'' JNull) \<or> truthy (dict_get ?d ''swagger'' JNull)"
    by code_simp
  have i: "\<not> truthy (dict_get ?d ''info'' JNull)"
    by code_simp
  have s: "strip ''{}'' \<noteq> []" "strip ''openapi: 3.0.0'' \<noteq> []"
    by code_simp+
  have l: "lower ''JSON'' = ''json''" "lower ''yml'' = ''yml''"
    by code_simp+
  have t: "truthy (dict_get ?d ''openapi'' JNull)"
    by code_simp
  from validate_spec_truthiness [OF h] i s l t show ?thesis
    by simp
qed

text \<open>
  A mapping that carries \<^verbatim>\<open>openapi\<close>, \<^verbatim>\<open>info\<close> and \<^verbatim>\<open>paths\<close>, with an empty
  \<^verbatim>\<open>info\<close>: validation fails with MissingInfo although the key is there.
\<close>

theorem validate_spec_empty_info_counterexample:
  "dict_contains [(JStr ''openapi'', JStr ''3.0.0''), (JStr ''info'', JDict []),
                  (JStr ''paths'', JDict [(JStr ''/a'', JDict [])])] (JStr ''openapi'') \<and>
   dict_contains [(JStr ''openapi'', JStr ''3.0.0''), (JStr ''info'', JDict []),
                  (JStr ''paths'', JDict [(JStr ''/a'', JDict [])])] (JStr ''info'') \<and>
   validate_spec [(JStr ''openapi'', JStr ''3.0.0''), (JStr ''info'', JDict []),
                  (JStr ''paths'', JDict [(JStr ''/a'', JDict [])])] = Inl MissingInfo"
  by code_simp

section \<open>DiffService: the default format\<close>

text \<open>
  Claim C7 at a YAML document given without formats. The signature's default is
  \<^verbatim>\<open>"json"\<close>, so the format detector is not consulted: the content is handed to the JSON
  decoder and the comparison fails with a parsing error, where the same call with
  \<^verbatim>\<open>"auto"\<close> detects YAML and succeeds. The decoders here stand for a JSON decoder that
  rejects the content and a YAML decoder that accepts it.
\<close>

theorem compare_specs_default_format_json:
  "resolve_format None ''openapi: 3.0.0'' = ''json'' \<and>
   resolve_format (Some ''auto'') ''openapi: 3.0.0'' = ''yaml'' \<and>
   compare_specs (\<lambda>n s. DecodeError ''Expecting value'')
     (\<lambda>n s. Decoded (JDict [(JStr ''openapi'', JStr ''3.0.0''),
                           (JStr ''info'', JDict [(JStr ''title'', JStr ''API'')]),
                           (JStr ''paths'', JDict [(JStr ''/a'', JDict [])])]))
     ''openapi: 3.0.0'' ''openapi: 3.0.0'' None None
     = Inl (ParsingError (InvalidJSON ''Expecting value'')) \<and>
   compare_specs (\<lambda>n s. DecodeError ''Expecting value'')
     (\<lambda>n s. Decoded (JDict [(JStr ''openapi'', JStr ''3.0.0''),
                           (JStr ''info'', JDict [(JStr ''title'', JStr ''API'')]),
                           (JStr ''paths'', JDict [(JStr ''/a'', JDict [])])]))
     ''openapi: 3.0.0'' ''openapi: 3.0.0'' (Some ''auto'') (Some ''auto'')
     = Inr \<lparr>summary = \<lparr>breaking = 0, potentially_breaking = 0, non_breaking = 0\<rparr>,
            changes = []\<rparr>"
  by code_simp

section \<open>Dicts\<close>

lemma keyed_Nil [simp]: "keyed [] = []"
  by (simp add: keyed_def)

lemma keyed_Cons [simp]: "keyed ((k, v) # d) = (key_of k, v) # keyed d"
  by (simp add: keyed_def)

lemma keyed_append [simp]: "keyed (d @ d') = keyed d @ keyed d'"
  by (simp add: keyed_def)

lemma keyed_dict_set: "keyed (dict_set d k v) = AList.update (key_of k) v (keyed d)"
  by (induction d) auto

lemma dict_find_dict_set:
  "dict_find (dict_set d k v) k' = (if key_of k' = key_of k then Some v else dict_find d k')"
  by (simp add: dict_find_def keyed_dict_set update_conv')

lemma dict_contains_find: "dict_contains d k \<longleftrightarrow> dict_find d k \<noteq> None"
  by (simp add: dict_contains_def dict_find_def map_of_eq_None_iff)

lemma dict_find_Nil [simp]: "dict_find [] k = None"
  by (simp add: dict_find_def)

lemma dict_find_Cons:
  "dict_find ((k', v) # d) k = (if key_of k' = key_of k then Some v else dict_find d k)"
  by (auto simp: dict_find_def)

lemma dict_find_mem: "dict_find d k = Some v \<Longrightarrow> \<exists>k'. (k', v) \<in> set d \<and> key_of k' = key_of k"
  by (induction d) (auto simp: dict_find_Cons split: if_splits)

lemma key_of_JStr [simp]: "key_of k = KStr s \<longleftrightarrow> k = JStr s"
  by (cases k) (auto split: pyfloat.splits)

lemma key_of_JStr' [simp]: "KStr s = key_of k \<longleftrightarrow> k = JStr s"
  by (cases k) (auto split: pyfloat.splits)

lemma hashable_key_of: "hashable k \<longleftrightarrow> key_of k \<noteq> KUnhashable"
  by (cases k) (auto split: pyfloat.splits)

lemma dict_get_Cons:
  "dict_get ((k', v) # d) k dflt = (if k' = JStr k then v else dict_get d k dflt)"
  by (auto simp: dict_get_def dict_find_Cons)

lemma dict_get_Nil [simp]: "dict_get [] k dflt = dflt"
  by (simp add: dict_get_def)


section \<open>What the Differ emits\<close>

text \<open>
  The rules below follow the shape of the Differ's methods: a sequence of calls, loops and
  conditionals emits only changes that satisfy \<open>P\<close> when each of its parts does.
\<close>

lemma emits_Inl [simp]: "emits P (Inl e)"
  by (simp add: emits_def)

lemma emits_Inr [simp]: "emits P (Inr cs) \<longleftrightarrow> list_all P cs"
  by (simp add: emits_def)

lemma emits_bindE:
  assumes "\<And>x. m = Inr x \<Longrightarrow> emits P (f x)"
  shows "emits P (bindE m f)"
  using assms by (cases m) simp_all

lemma emits_bindE_list:
  assumes "emits P m" and "\<And>cs. m = Inr cs \<Longrightarrow> list_all P cs \<Longrightarrow> emits P (f cs)"
  shows "emits P (bindE m f)"
  using assms by (cases m) simp_all

lemma emits_for_each:
  assumes "\<And>x. x \<in> set xs \<Longrightarrow> emits P (body x)"
  shows "emits P (for_each body xs)"
  using assms
proof (induction xs)
  case Nil
  then show ?case by simp
next
  case (Cons x xs)
  have "emits P (body x)" by (rule Cons.prems) simp
  moreover have "emits P (for_each body xs)"
    by (rule Cons.IH) (simp add: Cons.prems)
  ultimately show ?case
    by (cases "body x"; cases "for_each body xs") simp_all
qed

lemma emits_if:
  assumes "b \<Longrightarrow> emits P x" and "\<not> b \<Longrightarrow> emits P y"
  shows "emits P (if b then x else y)"
  using assms by simp

lemma emits_mono: "emits P r \<Longrightarrow> (\<And>c. P c \<Longrightarrow> Q c) \<Longrightarrow> emits Q r"
  by (cases r) (auto simp: list_all_iff)

lemma emitsD: "emits P r \<Longrightarrow> r = Inr cs \<Longrightarrow> c \<in> set cs \<Longrightarrow> P c"
  by (simp add: list_all_iff)

lemmas emits_intros = emits_bindE_list emits_for_each emits_bindE emits_if

lemma diff_endpoints_emitted: "emits emitted (diff_endpoints old_paths new_paths)"
  unfolding diff_endpoints_def
  by (intro emits_intros) (simp_all add: emitted.intros)

lemma diff_parameters_in_emitted:
  "lower m \<in> set methods \<Longrightarrow> emits emitted (diff_parameters_in p m d d')"
  unfolding diff_parameters_in_def Let_def
  by (intro emits_intros) (simp_all add: emitted.intros)

lemma diff_parameters_emitted:
  "lower m \<in> set methods \<Longrightarrow> emits emitted (diff_parameters p m old_op new_op b)"
  unfolding diff_parameters_def
  by (intro emits_intros diff_parameters_in_emitted)

lemma diff_schema_emitted:
  "lower m \<in> set methods \<Longrightarrow> emits emitted (diff_schema p m old_schema new_schema)"
  unfolding diff_schema_def Let_def
  by (intro emits_intros) (simp_all add: emitted.intros)

lemma diff_request_body_emitted:
  "lower m \<in> set methods \<Longrightarrow> emits emitted (diff_request_body p m old_op new_op)"
  unfolding diff_request_body_def
  by (intro emits_intros diff_schema_emitted) simp_all

lemma diff_responses_emitted:
  "lower m \<in> set methods \<Longrightarrow> emits emitted (diff_responses p m old_op new_op)"
  unfolding diff_responses_def
  by (intro emits_intros) (auto intro: emitted.response_change)

lemma diff_operation_emitted:
  "lower m \<in> set methods \<Longrightarrow> emits emitted (diff_operation p m old_op new_op)"
  unfolding diff_operation_def
  by (intro emits_intros diff_parameters_emitted diff_request_body_emitted diff_responses_emitted)
     simp_all

lemma select_methods_key:
  "select_methods items = Inr selected \<Longrightarrow> m \<in> set (map fst selected) \<Longrightarrow> lower m \<in> set methods"
proof (induction items arbitrary: selected)
  case Nil
  then show ?case by simp
next
  case (Cons kv items)
  obtain k v where kv: "kv = (k, v)" by (cases kv)
  show ?case
  proof (cases "is_dict v")
    case False
    with Cons show ?thesis unfolding kv by simp
  next
    case True
    with Cons.prems(1) obtain s rest where k: "k = JStr s" and rest: "select_methods items = Inr rest"
      and sel: "selected = (if lower s \<in> set methods then (s, v) # rest else rest)"
      unfolding kv by (cases k) (auto simp: bindE_eq_Inr)
    from Cons.IH [OF rest] Cons.prems(2) show ?thesis
      unfolding sel by (auto split: if_splits)
  qed
qed

lemma diff_path_emitted: "emits emitted (diff_path p old_item new_item)"
  unfolding diff_path_def
  by (intro emits_intros diff_operation_emitted)
     (auto intro: emitted.intros select_methods_key simp del: set_map)

lemma diff_operations_emitted: "emits emitted (diff_operations old_paths new_paths)"
  unfolding diff_operations_def
  by (intro emits_intros diff_path_emitted) simp_all

lemma diff_emitted: "emits emitted (diff old_spec new_spec)"
  unfolding diff_def
  by (intro emits_intros diff_endpoints_emitted diff_operations_emitted) simp_all

section \<open>Normalizer: which keys of a path item are kept\<close>

lemma normalize_path_item_strings:
  "normalize_path_item acc items = Inr r \<Longrightarrow> \<exists>sitems. items = map (\<lambda>(m, v). (JStr m, v)) sitems"
proof (induction items arbitrary: acc)
  case Nil
  then show ?case by simp
next
  case (Cons kv items)
  obtain k v where kv: "kv = (k, v)" by (cases kv)
  from Cons.prems obtain s where k: "k = JStr s"
    unfolding kv by (cases k) simp_all
  from Cons.prems obtain acc' where "normalize_path_item acc' items = Inr r"
    unfolding kv k by auto
  from Cons.IH [OF this] obtain sitems where "items = map (\<lambda>(m, v). (JStr m, v)) sitems"
    by blast
  then have "kv # items = map (\<lambda>(m, v). (JStr m, v)) ((s, v) # sitems)"
    by (simp add: kv k)
  then show ?case by (rule exI)
qed

lemma normalize_path_item_keyed:
  "\<exists>r. normalize_path_item acc (map (\<lambda>(m, v). (JStr m, v)) sitems) = Inr r \<and>
     (\<forall>h. map_of (keyed r) h =
        (case (case h of
                 KStr k \<Rightarrow> if k \<in> set methods
                           then map_of (rev (map (\<lambda>(m, v). (lower m, v)) sitems)) k else None
               | _ \<Rightarrow> None) of
           Some v \<Rightarrow> Some v
         | None \<Rightarrow> map_of (keyed acc) h))"
proof (induction sitems arbitrary: acc)
  case Nil
  then show ?case by (simp split: hkey.splits)
next
  case (Cons kv sitems)
  obtain m v where kv: "kv = (m, v)" by (cases kv)
  let ?acc = "if lower m \<in> set methods then dict_set acc (JStr (lower m)) v else acc"
  from Cons.IH [of ?acc] obtain r
    where r: "normalize_path_item ?acc (map (\<lambda>(m, v). (JStr m, v)) sitems) = Inr r"
      and look: "\<And>h. map_of (keyed r) h =
        (case (case h of
                 KStr k \<Rightarrow> if k \<in> set methods
                           then map_of (rev (map (\<lambda>(m, v). (lower m, v)) sitems)) k else None
               | _ \<Rightarrow> None) of
           Some v \<Rightarrow> Some v
         | None \<Rightarrow> map_of (keyed ?acc) h)"
    by blast
  have "normalize_path_item acc (map (\<lambda>(m, v). (JStr m, v)) (kv # sitems)) = Inr r"
    using r by (simp add: kv)
  moreover have "map_of (keyed r) h =
        (case (case h of
                 KStr k \<Rightarrow> if k \<in> set methods
                           then map_of (rev (map (\<lambda>(m, v). (lower m, v)) (kv # sitems))) k else None
               | _ \<Rightarrow> None) of
           Some v \<Rightarrow> Some v
         | None \<Rightarrow> map_of (keyed acc) h)" for h
    unfolding look kv
    by (cases h) (auto simp: keyed_dict_set update_conv' map_add_def split: option.splits)
  ultimately show ?case by blast
qed

lemma normalize_paths_loop_keyed:
  "normalize_paths_loop acc ps = Inr r \<Longrightarrow>
   map_of (keyed r) h =
     (case map_of (rev (keyed ps)) h of
        Some v \<Rightarrow>
          (case v of
             JDict items \<Rightarrow>
               (case normalize_path_item [] items of Inr nitems \<Rightarrow> Some (JDict nitems) | Inl e \<Rightarrow> None)
           | _ \<Rightarrow> None)
      | None \<Rightarrow> map_of (keyed acc) h)"
proof (induction ps arbitrary: acc)
  case Nil
  then show ?case by simp
next
  case (Cons kv ps)
  obtain q v where kv: "kv = (q, v)" by (cases kv)
  from Cons.prems obtain items nitems where v: "v = JDict items"
    and ni: "normalize_path_item [] items = Inr nitems"
    and rest: "normalize_paths_loop (dict_set acc q (JDict nitems)) ps = Inr r"
    unfolding kv by (cases v) (auto simp: bindE_eq_Inr)
  show ?case
    unfolding kv v
    by (simp add: Cons.IH [OF rest] ni keyed_dict_set update_conv' map_add_def
          split: option.splits)
qed

lemma normalize_paths_loop_item:
  "normalize_paths_loop acc ps = Inr r \<Longrightarrow> (q, v) \<in> set ps \<Longrightarrow>
   \<exists>items nitems. v = JDict items \<and> normalize_path_item [] items = Inr nitems"
proof (induction ps arbitrary: acc)
  case Nil
  then show ?case by simp
next
  case (Cons kv ps)
  obtain q' v' where kv: "kv = (q', v')" by (cases kv)
  from Cons.prems(1) obtain items nitems where v: "v' = JDict items"
    and ni: "normalize_path_item [] items = Inr nitems"
    and rest: "normalize_paths_loop (dict_set acc q' (JDict nitems)) ps = Inr r"
    unfolding kv by (cases v') (auto simp: bindE_eq_Inr)
  show ?case
  proof (cases "(q, v) = kv")
    case True
    with v ni show ?thesis by (simp add: kv)
  next
    case False
    with Cons.prems(2) have "(q, v) \<in> set ps" by simp
    from Cons.IH [OF rest this] show ?thesis .
  qed
qed

lemma map_of_rev_distinct: "distinct (map fst ps) \<Longrightarrow> map_of (rev ps) = map_of ps"
  by (rule ext) (metis distinct_rev map_of_inject_set rev_map set_rev)

text \<open>
  Claim C9, as the code has it. For every path item, in either dialect, normalization
  keeps a key exactly when its lower-cased form is one of the seven methods, whatever its
  value is (the test that the value is a record is made later, by the Differ); the entry is
  stored under the lower-cased key, and of several keys that differ only by case the last
  one in the order of the source gives the value. Normalization calls \<^verbatim>\<open>lower\<close> on every
  key of the path item, so when it succeeds these keys are strings: \<open>sitems\<close> below is the
  path item with its keys read as strings. The normalized path item has no other key.
\<close>

theorem normalize_paths_keeps_method_keys:
  assumes "distinct (map fst (keyed ps))" and "(p, JDict items) \<in> set ps" and "hashable p"
    and "normalize_paths_openapi3 (JDict ps) = Inr r3"
    and "normalize_paths_swagger2 (JDict ps) = Inr r2"
  shows "\<exists>nitems sitems. py_getitem r3 p = Inr (JDict nitems) \<and>
           py_getitem r2 p = Inr (JDict nitems) \<and>
           items = map (\<lambda>(m, v). (JStr m, v)) sitems \<and>
           (\<forall>k. dict_find nitems k =
              (case k of
                 JStr s \<Rightarrow> if s \<in> set methods
                           then map_of (rev (map (\<lambda>(m, v). (lower m, v)) sitems)) s else None
               | _ \<Rightarrow> None))"
proof -
  from assms(4) obtain n3 where n3: "normalize_paths_loop [] ps = Inr n3" and r3: "r3 = JDict n3"
    by (auto simp: normalize_paths_openapi3_def bindE_eq_Inr)
  from assms(5) obtain n2 where n2: "normalize_paths_loop [] ps = Inr n2" and r2: "r2 = JDict n2"
    by (auto simp: normalize_paths_swagger2_def bindE_eq_Inr)
  have "(key_of p, JDict items) \<in> set (keyed ps)"
    using assms(2) by (force simp: keyed_def)
  then have look: "map_of (rev (keyed ps)) (key_of p) = Some (JDict items)"
    using assms(1) by (simp add: map_of_rev_distinct)
  from normalize_paths_loop_item [OF n3 assms(2)]
  obtain nitems where ni: "normalize_path_item [] items = Inr nitems"
    by auto
  from normalize_paths_loop_keyed [OF n3, of "key_of p"] look ni
  have f: "map_of (keyed n3) (key_of p) = Some (JDict nitems)"
    by simp
  from normalize_path_item_strings [OF ni] obtain sitems
    where sitems: "items = map (\<lambda>(m, v). (JStr m, v)) sitems"
    by blast
  from normalize_path_item_keyed [of "[]" sitems] ni
  have k: "map_of (keyed nitems) h =
        (case h of
           KStr k \<Rightarrow> if k \<in> set methods
                     then map_of (rev (map (\<lambda>(m, v). (lower m, v)) sitems)) k else None
         | _ \<Rightarrow> None)" for h
    unfolding sitems by (auto split: hkey.splits option.splits)
  have "dict_find nitems k =
              (case k of
                 JStr s \<Rightarrow> if s \<in> set methods
                           then map_of (rev (map (\<lambda>(m, v). (lower m, v)) sitems)) s else None
               | _ \<Rightarrow> None)" for k
    unfolding dict_find_def k by (cases k) (auto split: pyfloat.splits)
  moreover have "n2 = n3" using n2 n3 by simp
  ultimately show ?thesis
    unfolding r3 r2 using f sitems assms(3) by (auto simp: dict_find_def)
qed

theorem normalize_paths_keeps_method_keys_witness:
  "\<exists>nitems.
     py_getitem (JDict [(JStr ''/a'', JDict [(JStr ''get'', JInt 2), (JStr ''post'', JDict [])])])
       (JStr ''/a'') = Inr (JDict nitems) \<and>
     dict_find nitems (JStr ''get'') = Some (JInt 2) \<and>
     dict_find nitems (JStr ''post'') = Some (JDict []) \<and>
     dict_find nitems (JStr ''summary'') = None \<and> dict_find nitems (JInt 1) = None"
proof -
  let ?items = "[(JStr ''GET'', JInt 1), (JStr ''summary'', JDict [(JStr ''x'', JNull)]),
                 (JStr ''post'', JDict []), (JStr ''get'', JInt 2)]"
  let ?sitems = "[(''GET'', JInt 1), (''summary'', JDict [(JStr ''x'', JNull)]),
                  (''post'', JDict []), (''get'', JInt 2)]"
  let ?ps = "[(JStr ''/a'', JDict ?items)]"
  let ?r = "JDict [(JStr ''/a'', JDict [(JStr ''get'', JInt 2), (JStr ''post'', JDict [])])]"
  have d: "distinct (map fst (keyed ?ps))" by simp
  have m: "(JStr ''/a'', JDict ?items) \<in> set ?ps" by simp
  have h: "hashable (JStr ''/a'')" by simp
  have r3: "normalize_paths_openapi3 (JDict ?ps) = Inr ?r" by code_simp
  have r2: "normalize_paths_swagger2 (JDict ?ps) = Inr ?r" by code_simp
  have mg: "''get'' \<in> set methods" "''post'' \<in> set methods" "''summary'' \<notin> set methods"
    by (simp_all add: methods_def)
  have l: "map (\<lambda>(m, v). (lower m, v)) ?sitems =
     [(''get'', JInt 1), (''summary'', JDict [(JStr ''x'', JNull)]), (''post'', JDict []), (''get'', JInt 2)]"
    by code_simp
  have inj: "map (\<lambda>(m, v). (JStr m, v)) s = map (\<lambda>(m, v). (JStr m, v)) s' \<Longrightarrow> s = s'" for s s' :: "(string \<times> json) list"
    by (induction s arbitrary: s') (auto simp: map_eq_Cons_conv)
  from normalize_paths_keeps_method_keys [OF d m h r3 r2]
  obtain nitems sitems where n: "py_getitem ?r (JStr ''/a'') = Inr (JDict nitems)"
    and n2: "py_getitem ?r (JStr ''/a'') = Inr (JDict nitems)"
    and s: "?items = map (\<lambda>(m, v). (JStr m, v)) sitems"
    and k: "\<forall>k. dict_find nitems k =
              (case k of
                 JStr s \<Rightarrow> if s \<in> set methods
                           then map_of (rev (map (\<lambda>(m, v). (lower m, v)) sitems)) s else None
               | _ \<Rightarrow> None)"
    by (elim exE conjE) (rule that)
  have "map (\<lambda>(m, v). (JStr m, v)) ?sitems = map (\<lambda>(m, v). (JStr m, v)) sitems"
    using s by simp
  then have "sitems = ?sitems" using inj by metis
  then have "dict_find nitems (JStr ''get'') = Some (JInt 2)"
       "dict_find nitems (JStr ''post'') = Some (JDict [])"
       "dict_find nitems (JStr ''summary'') = None" "dict_find nitems (JInt 1) = None"
    using k mg l by simp_all
  with n show ?thesis by blast
qed

text \<open>
  A path item whose \<^verbatim>\<open>get\<close> is a string and which has a record under a key that is not
  a method: the string is kept and the record is dropped.
\<close>

theorem normalize_paths_non_record_counterexample:
  "normalize_paths_openapi3
     (JDict [(JStr ''/a'', JDict [(JStr ''get'', JStr ''not a record''), (JStr ''x-internal'', JDict [])])])
   = Inr (JDict [(JStr ''/a'', JDict [(JStr ''get'', JStr ''not a record'')])]) \<and>
   normalize_paths_swagger2
     (JDict [(JStr ''/a'', JDict [(JStr ''get'', JStr ''not a record''), (JStr ''x-internal'', JDict [])])])
   = Inr (JDict [(JStr ''/a'', JDict [(JStr ''get'', JStr ''not a record'')])])"
  by code_simp


section \<open>Differ: the schema of a request body\<close>

lemma extract_schema_loop_skip:
  assumes "\<forall>(c, sp) \<in> set pre. \<exists>e. sp = JDict e \<and> \<not> truthy (dict_get e ''schema'' (JDict []))"
  shows "extract_schema_loop (pre @ rest) = extract_schema_loop rest"
  using assms by (induction pre) auto

lemma dict_set_not_Nil [simp]: "dict_set d k v \<noteq> []"
  by (cases d) (auto split: if_splits)

lemma dict_get_dict_set [simp]: "dict_get (dict_set d (JStr k) v) k dflt = v"
  by (simp add: dict_get_def dict_find_dict_set)

lemma diff_request_body_schemas:
  assumes "py_get old_op ''requestBody'' (JDict []) = Inr old_body"
    and "py_get new_op ''requestBody'' (JDict []) = Inr new_body"
    and "extract_schema_from_request_body old_body = Inr old_schema"
    and "extract_schema_from_request_body new_body = Inr new_schema"
  shows "diff_request_body p m old_op new_op =
           (if truthy old_schema \<and> truthy new_schema then diff_schema p m old_schema new_schema
            else Inr [])"
proof (cases "\<not> truthy old_body \<and> \<not> truthy new_body")
  case True
  with assms(3) have "old_schema = JDict []"
    by (simp add: extract_schema_from_request_body_def)
  with True assms(1,2) show ?thesis
    by (simp add: diff_request_body_def)
next
  case False
  with assms show ?thesis
    by (auto simp: diff_request_body_def)
qed

lemma first_truthy_schema:
  assumes "rb \<noteq> []"
    and "dict_get rb ''content'' (JDict []) = JDict (pre @ (ct, JDict d) # post)"
    and "\<forall>(c, sp) \<in> set pre. \<exists>e. sp = JDict e \<and> \<not> truthy (dict_get e ''schema'' (JDict []))"
    and "truthy (dict_get d ''schema'' (JDict []))"
  shows "extract_schema_from_request_body (JDict rb) = Inr (dict_get d ''schema'' (JDict []))"
  using assms by (simp add: extract_schema_from_request_body_def extract_schema_loop_skip)

text \<open>
  Claim C4, as the code has it. The loop of \<^verbatim>\<open>_extract_schema_from_request_body\<close> does
  not stop at the first declared content type: it skips every content type whose schema is
  missing or empty and returns the first non-empty schema, ignoring the content types
  after it. A request body none of whose content types has a non-empty schema yields the
  empty schema. \<^verbatim>\<open>_diff_request_body\<close> diffs the two schemas extracted in this way and
  nothing else: when either side yields an empty schema no body change is emitted, and
  otherwise the changes are those of \<^verbatim>\<open>_diff_schema\<close> on the first non-empty schema of the
  old request body and the first non-empty schema of the new one.
\<close>

theorem request_body_first_truthy_schema:
  assumes "rb \<noteq> []"
    and "dict_get rb ''content'' (JDict []) = JDict (pre @ (ct, JDict d) # post)"
    and "\<forall>(c, sp) \<in> set pre. \<exists>e. sp = JDict e \<and> \<not> truthy (dict_get e ''schema'' (JDict []))"
    and "truthy (dict_get d ''schema'' (JDict []))"
  shows "extract_schema_from_request_body (JDict rb) = Inr (dict_get d ''schema'' (JDict [])) \<and>
         extract_schema_from_request_body (JDict (dict_set rb (JStr ''content'') (JDict pre)))
           = Inr (JDict []) \<and>
         (\<forall>p m old_op new_op old_body new_body old_schema new_schema.
            py_get old_op ''requestBody'' (JDict []) = Inr old_body \<and>
            py_get new_op ''requestBody'' (JDict []) = Inr new_body \<and>
            extract_schema_from_request_body old_body = Inr old_schema \<and>
            extract_schema_from_request_body new_body = Inr new_schema \<longrightarrow>
            diff_request_body p m old_op new_op =
              (if truthy old_schema \<and> truthy new_schema
               then diff_schema p m old_schema new_schema else Inr [])) \<and>
         (\<forall>p m old_op new_op rb' pre' ct' d' post'.
            py_get old_op ''requestBody'' (JDict []) = Inr (JDict rb) \<and>
            py_get new_op ''requestBody'' (JDict []) = Inr (JDict rb') \<and> rb' \<noteq> [] \<and>
            dict_get rb' ''content'' (JDict []) = JDict (pre' @ (ct', JDict d') # post') \<and>
            (\<forall>(c, sp) \<in> set pre'. \<exists>e. sp = JDict e \<and> \<not> truthy (dict_get e ''schema'' (JDict []))) \<and>
            truthy (dict_get d' ''schema'' (JDict [])) \<longrightarrow>
            diff_request_body p m old_op new_op =
              diff_schema p m (dict_get d ''schema'' (JDict [])) (dict_get d' ''schema'' (JDict [])))"
proof (intro conjI allI impI)
  show "extract_schema_from_request_body (JDict rb) = Inr (dict_get d ''schema'' (JDict []))"
    using assms by (rule first_truthy_schema)
next
  have "extract_schema_loop (pre @ []) = extract_schema_loop []"
    using assms(3) by (rule extract_schema_loop_skip)
  then show "extract_schema_from_request_body (JDict (dict_set rb (JStr ''content'') (JDict pre)))
      = Inr (JDict [])"
    by (simp add: extract_schema_from_request_body_def)
next
  fix p m old_op new_op old_body new_body old_schema new_schema
  assume "py_get old_op ''requestBody'' (JDict []) = Inr old_body \<and>
            py_get new_op ''requestBody'' (JDict []) = Inr new_body \<and>
            extract_schema_from_request_body old_body = Inr old_schema \<and>
            extract_schema_from_request_body new_body = Inr new_schema"
  then have "py_get old_op ''requestBody'' (JDict []) = Inr old_body"
    and "py_get new_op ''requestBody'' (JDict []) = Inr new_body"
    and "extract_schema_from_request_body old_body = Inr old_schema"
    and "extract_schema_from_request_body new_body = Inr new_schema"
    by simp_all
  then show "diff_request_body p m old_op new_op =
              (if truthy old_schema \<and> truthy new_schema
               then diff_schema p m old_schema new_schema else Inr [])"
    by (rule diff_request_body_schemas)
next
  fix p m old_op new_op rb' pre' ct' d' post'
  assume a: "py_get old_op ''requestBody'' (JDict []) = Inr (JDict rb) \<and>
            py_get new_op ''requestBody'' (JDict []) = Inr (JDict rb') \<and> rb' \<noteq> [] \<and>
            dict_get rb' ''content'' (JDict []) = JDict (pre' @ (ct', JDict d') # post') \<and>
            (\<forall>(c, sp) \<in> set pre'. \<exists>e. sp = JDict e \<and> \<not> truthy (dict_get e ''schema'' (JDict []))) \<and>
            truthy (dict_get d' ''schema'' (JDict []))"
  have o: "extract_schema_from_request_body (JDict rb) = Inr (dict_get d ''schema'' (JDict []))"
    using assms by (rule first_truthy_schema)
  from a have a1: "py_get old_op ''requestBody'' (JDict []) = Inr (JDict rb)"
    and a2: "py_get new_op ''requestBody'' (JDict []) = Inr (JDict rb')"
    and a3: "rb' \<noteq> []"
    and a4: "dict_get rb' ''content'' (JDict []) = JDict (pre' @ (ct', JDict d') # post')"
    and a5: "\<forall>(c, sp) \<in> set pre'. \<exists>e. sp = JDict e \<and> \<not> truthy (dict_get e ''schema'' (JDict []))"
    and a6: "truthy (dict_get d' ''schema'' (JDict []))"
    by simp_all
  have n: "extract_schema_from_request_body (JDict rb') = Inr (dict_get d' ''schema'' (JDict []))"
    using a3 a4 a5 a6 by (rule first_truthy_schema)
  have "diff_request_body p m old_op new_op =
      (if truthy (dict_get d ''schema'' (JDict [])) \<and> truthy (dict_get d' ''schema'' (JDict []))
       then diff_schema p m (dict_get d ''schema'' (JDict [])) (dict_get d' ''schema'' (JDict []))
       else Inr [])"
    using a1 a2 o n by (rule diff_request_body_schemas)
  with a assms(4) show "diff_request_body p m old_op new_op =
      diff_schema p m (dict_get d ''schema'' (JDict [])) (dict_get d' ''schema'' (JDict []))"
    by simp
qed

theorem request_body_first_truthy_schema_witness:
  "extract_schema_from_request_body
     (JDict [(JStr ''content'', JDict [(JStr ''text/plain'', JDict []),
        (JStr ''application/json'', JDict [(JStr ''schema'', JDict [(JStr ''type'', JStr ''object'')])]),
        (JStr ''application/xml'', JDict [(JStr ''schema'', JDict [(JStr ''type'', JStr ''string'')])])])])
     = Inr (JDict [(JStr ''type'', JStr ''object'')]) \<and>
   extract_schema_from_request_body (JDict [(JStr ''content'', JDict [(JStr ''text/plain'', JDict [])])])
     = Inr (JDict []) \<and>
   diff_request_body (JStr ''/a'') ''post''
     (JDict [(JStr ''requestBody'', JDict [(JStr ''content'', JDict [(JStr ''text/plain'', JDict [])])])])
     (JDict [(JStr ''requestBody'',
        JDict [(JStr ''content'', JDict [(JStr ''text/plain'', JDict []),
           (JStr ''application/json'', JDict [(JStr ''schema'', JDict [(JStr ''type'', JStr ''object'')])]),
           (JStr ''application/xml'', JDict [(JStr ''schema'', JDict [(JStr ''type'', JStr ''string'')])])])])])
     = Inr [] \<and>
   diff_request_body (JStr ''/a'') ''post''
     (JDict [(JStr ''requestBody'',
        JDict [(JStr ''content'', JDict [(JStr ''text/plain'', JDict []),
           (JStr ''application/json'', JDict [(JStr ''schema'', JDict [(JStr ''type'', JStr ''object'')])]),
           (JStr ''application/xml'', JDict [(JStr ''schema'', JDict [(JStr ''type'', JStr ''string'')])])])])])
     (JDict [(JStr ''requestBody'',
        JDict [(JStr ''content'', JDict [(JStr ''text/plain'', JDict []),
           (JStr ''application/json'', JDict [(JStr ''schema'', JDict [(JStr ''type'', JStr ''object'')])]),
           (JStr ''application/xml'', JDict [(JStr ''schema'', JDict [(JStr ''type'', JStr ''string'')])])])])])
     = diff_schema (JStr ''/a'') ''post'' (JDict [(JStr ''type'', JStr ''object'')])
         (JDict [(JStr ''type'', JStr ''object'')])"
proof -
  let ?d = "[(JStr ''schema'', JDict [(JStr ''type'', JStr ''object'')])]"
  let ?pre = "[(JStr ''text/plain'', JDict [])]"
  let ?post = "[(JStr ''application/xml'', JDict [(JStr ''schema'', JDict [(JStr ''type'', JStr ''string'')])])]"
  let ?rb = "[(JStr ''content'', JDict (?pre @ (JStr ''application/json'', JDict ?d) # ?post))]"
  have 1: "?rb \<noteq> []" by simp
  have 2: "dict_get ?rb ''content'' (JDict []) = JDict (?pre @ (JStr ''application/json'', JDict ?d) # ?post)"
    by (simp add: dict_get_Cons)
  have 3: "\<forall>(c, sp) \<in> set ?pre. \<exists>e. sp = JDict e \<and> \<not> truthy (dict_get e ''schema'' (JDict []))"
    by simp
  have 4: "truthy (dict_get ?d ''schema'' (JDict []))"
    by (simp add: dict_get_Cons)
  note t = request_body_first_truthy_schema [OF 1 2 3 4]
  have a: "extract_schema_from_request_body (JDict ?rb) = Inr (JDict [(JStr ''type'', JStr ''object'')])"
    using t by (simp add: dict_get_Cons)
  have b: "extract_schema_from_request_body (JDict [(JStr ''content'', JDict ?pre)]) = Inr (JDict [])"
    using t by simp
  have og: "py_get (JDict [(JStr ''requestBody'', JDict [(JStr ''content'', JDict ?pre)])])
               ''requestBody'' (JDict []) = Inr (JDict [(JStr ''content'', JDict ?pre)])"
    by (simp add: dict_get_Cons)
  have ng: "py_get (JDict [(JStr ''requestBody'', JDict ?rb)]) ''requestBody'' (JDict []) = Inr (JDict ?rb)"
    by (simp add: dict_get_Cons)
  note t3 = t [THEN conjunct2, THEN conjunct2, THEN conjunct1, rule_format]
  note t4 = t [THEN conjunct2, THEN conjunct2, THEN conjunct2, rule_format]
  have c: "diff_request_body (JStr ''/a'') ''post''
          (JDict [(JStr ''requestBody'', JDict [(JStr ''content'', JDict ?pre)])])
          (JDict [(JStr ''requestBody'', JDict ?rb)]) = Inr []"
    using t3 [OF conjI [OF og conjI [OF ng conjI [OF b a]]]] by simp
  have "diff_request_body (JStr ''/a'') ''post''
          (JDict [(JStr ''requestBody'', JDict ?rb)]) (JDict [(JStr ''requestBody'', JDict ?rb)])
        = diff_schema (JStr ''/a'') ''post'' (dict_get ?d ''schema'' (JDict []))
            (dict_get ?d ''schema'' (JDict []))"
    by (rule t4 [OF conjI [OF ng conjI [OF ng conjI [OF 1 conjI [OF 2 conjI [OF 3 4]]]]]])
  then have "diff_request_body (JStr ''/a'') ''post''
          (JDict [(JStr ''requestBody'', JDict ?rb)]) (JDict [(JStr ''requestBody'', JDict ?rb)])
        = diff_schema (JStr ''/a'') ''post'' (JDict [(JStr ''type'', JStr ''object'')])
            (JDict [(JStr ''type'', JStr ''object'')])"
    by (simp add: dict_get_Cons)
  with a b c show ?thesis by simp
qed

text \<open>
  Two request bodies whose first declared content type has no schema and whose second one
  has: the schema of the second content type is extracted and its drift is reported.
\<close>

theorem request_body_second_content_type_counterexample:
  "extract_schema_from_request_body
     (JDict [(JStr ''content'', JDict [(JStr ''text/plain'', JDict []),
        (JStr ''application/json'',
           JDict [(JStr ''schema'', JDict [(JStr ''properties'', JDict [(JStr ''name'', JDict [(JStr ''type'', JStr ''string'')])])])])])])
     = Inr (JDict [(JStr ''properties'', JDict [(JStr ''name'', JDict [(JStr ''type'', JStr ''string'')])])]) \<and>
   diff_request_body (JStr ''/users'') ''post''
     (JDict [(JStr ''requestBody'', JDict [(JStr ''content'', JDict [(JStr ''text/plain'', JDict []),
        (JStr ''application/json'',
           JDict [(JStr ''schema'', JDict [(JStr ''properties'', JDict [(JStr ''name'', JDict [(JStr ''type'', JStr ''string'')])])])])])])])
     (JDict [(JStr ''requestBody'', JDict [(JStr ''content'', JDict [(JStr ''text/plain'', JDict []),
        (JStr ''application/json'',
           JDict [(JStr ''schema'', JDict [(JStr ''properties'', JDict [(JStr ''name'', JDict [(JStr ''type'', JStr ''integer'')])])])])])])])
     = Inr [\<lparr>type = ''breaking'', category = ''schema'', path = JStr ''/users'',
             method = Some ''POST'', field = Some (JStr ''name''),
             message = ''Field type changed''\<rparr>]"
  by code_simp


section \<open>The changes a comparison returns\<close>

lemma char_upper_lower: "char_upper (char_lower c) = char_upper c"
proof -
  have "of_char (char_of (of_char c + 32 :: nat)) = (of_char c + 32 :: nat)"
    if "(of_char c :: nat) \<le> 90"
    using that by (simp add: of_char_of)
  then show ?thesis
    by (auto simp: char_upper_def char_lower_def Let_def)
qed

lemma upper_lower: "upper (lower s) = upper s"
  by (simp add: upper_def lower_def char_upper_lower)

lemma upper_methods:
  "list_all (\<lambda>k. upper k \<in> set [''GET'', ''POST'', ''PUT'', ''DELETE'', ''PATCH'', ''OPTIONS'', ''HEAD''])
     methods"
  by code_simp

lemma upper_method_key:
  assumes "lower m \<in> set methods"
  shows "upper m \<in> set [''GET'', ''POST'', ''PUT'', ''DELETE'', ''PATCH'', ''OPTIONS'', ''HEAD'']"
proof -
  have "upper (lower m) \<in> set [''GET'', ''POST'', ''PUT'', ''DELETE'', ''PATCH'', ''OPTIONS'', ''HEAD'']"
    using upper_methods assms unfolding list_all_iff by blast
  then show ?thesis by (simp only: upper_lower)
qed

lemma classify_response_change_Inr:
  assumes "classify_response_change p m s t = Inr c"
  shows "type c \<in> {''breaking'', ''potentially_breaking'', ''non_breaking''} \<and>
         category c = ''response'' \<and> path c = p \<and> method c = Some (upper m) \<and>
         field c = Some (JStr (''Response '' @ py_str s))"
proof (cases "t = ''removed''")
  case True
  with assms obtain code where "s = JStr code"
    by (cases s) (simp_all add: classify_response_change_def)
  with assms True show ?thesis
    by (cases "startswith code ''2''") (auto simp: classify_response_change_def)
next
  case False
  with assms show ?thesis
    by (cases "t = ''added''") (auto simp: classify_response_change_def)
qed

lemma emitted_type:
  "emitted c \<Longrightarrow> type c \<in> {''breaking'', ''potentially_breaking'', ''non_breaking''}"
proof (induction rule: emitted.induct)
  case (response_change m t p s c)
  from classify_response_change_Inr [OF this(3)] show ?case by blast
qed (auto simp: classify_endpoint_removal_def classify_endpoint_addition_def
        classify_method_removal_def classify_method_addition_def classify_parameter_change_def
        classify_schema_change_def)

lemma count_changes_total:
  assumes "\<forall>c \<in> set cs. type c \<in> {''breaking'', ''potentially_breaking'', ''non_breaking''}"
  shows "breaking (count_changes s cs) + potentially_breaking (count_changes s cs)
           + non_breaking (count_changes s cs)
         = breaking s + potentially_breaking s + non_breaking s + length cs"
  using assms by (induction cs arbitrary: s) auto

text \<open>
  Claim C1. For every pair of inputs on which \<open>compare_specs\<close> succeeds, the three
  counters of the summary add up to the length of the list of changes: every change the
  Differ emits was built by the Classifier, with one of the three severities.
\<close>

theorem summary_partitions_changes:
  assumes "compare_specs json_loads yaml_safe_load old_content new_content old_format new_format = Inr r"
  shows "breaking (summary r) + potentially_breaking (summary r) + non_breaking (summary r)
           = length (changes r)"
proof -
  from assms obtain old_spec new_spec cs where d: "diff old_spec new_spec = Inr cs"
    and r: "r = build_result cs"
    by (auto simp: compare_specs_def Let_def split: sum.splits)
  have "\<forall>c \<in> set cs. emitted c"
    using emitsD [OF diff_emitted d] by blast
  then have "\<forall>c \<in> set cs. type c \<in> {''breaking'', ''potentially_breaking'', ''non_breaking''}"
    using emitted_type by blast
  from count_changes_total [OF this] show ?thesis
    by (simp add: r build_result_def)
qed

theorem summary_partitions_changes_witness:
  "\<exists>r. compare_specs
          (\<lambda>n s. Decoded (JDict [(JStr ''openapi'', JStr ''3.0.0''),
             (JStr ''info'', JDict [(JStr ''title'', JStr ''API'')]),
             (JStr ''paths'', JDict (if s = ''{old}''
                then [(JStr ''/users'', JDict [(JStr ''get'', JDict [(JStr ''responses'',
                         JDict [(JStr ''200'', JDict []), (JStr ''404'', JDict [])])])]),
                      (JStr ''/posts'', JDict [(JStr ''get'', JDict [])])]
                else [(JStr ''/users'', JDict [(JStr ''get'', JDict [(JStr ''responses'',
                         JDict [(JStr ''200'', JDict [])])]),
                                          (JStr ''post'', JDict [])])]))]))
          (\<lambda>n s. DecodeError []) ''{old}'' ''{new}'' None None = Inr r \<and>
        breaking (summary r) + potentially_breaking (summary r) + non_breaking (summary r)
          = length (changes r) \<and>
        summary r = \<lparr>breaking = 1, potentially_breaking = 1, non_breaking = 1\<rparr> \<and>
        map category (changes r) = [''endpoint'', ''method'', ''response'']"
proof -
  let ?jl = "\<lambda>(n::nat) s. Decoded (JDict [(JStr ''openapi'', JStr ''3.0.0''),
             (JStr ''info'', JDict [(JStr ''title'', JStr ''API'')]),
             (JStr ''paths'', JDict (if s = ''{old}''
                then [(JStr ''/users'', JDict [(JStr ''get'', JDict [(JStr ''responses'',
                         JDict [(JStr ''200'', JDict []), (JStr ''404'', JDict [])])])]),
                      (JStr ''/posts'', JDict [(JStr ''get'', JDict [])])]
                else [(JStr ''/users'', JDict [(JStr ''get'', JDict [(JStr ''responses'',
                         JDict [(JStr ''200'', JDict [])])]),
                                          (JStr ''post'', JDict [])])]))])"
  let ?r = "\<lparr>summary = \<lparr>breaking = 1, potentially_breaking = 1, non_breaking = 1\<rparr>,
             changes = [classify_endpoint_removal (JStr ''/posts''),
                        classify_method_addition (JStr ''/users'') ''post'',
                        \<lparr>type = ''potentially_breaking'', category = ''response'',
                         path = JStr ''/users'', method = Some ''GET'',
                         field = Some (JStr ''Response 404''),
                         message = ''Non-2xx response removed''\<rparr>]\<rparr>"
  have r: "compare_specs ?jl (\<lambda>n s. DecodeError []) ''{old}'' ''{new}'' None None = Inr ?r"
    by code_simp
  from summary_partitions_changes [OF r] r show ?thesis
    by (simp add: classify_endpoint_removal_def classify_method_addition_def)
qed

section \<open>Comparing a document with itself\<close>



lemma dict_contains_key: "(k, v) \<in> set d \<Longrightarrow> dict_contains d k"
  by (force simp: dict_contains_def keyed_def)














section \<open>The order of emission\<close>

lemma classify_endpoint_simps [simp]:
  "category (classify_endpoint_removal p) = ''endpoint''"
  "type (classify_endpoint_removal p) = ''breaking''"
  "path (classify_endpoint_removal p) = p"
  "category (classify_endpoint_addition p) = ''endpoint''"
  "type (classify_endpoint_addition p) = ''non_breaking''"
  "path (classify_endpoint_addition p) = p"
  by (simp_all add: classify_endpoint_removal_def classify_endpoint_addition_def)

lemma classify_method_simps [simp]:
  "category (classify_method_removal p m) = ''method''"
  "path (classify_method_removal p m) = p"
  "category (classify_method_addition p m) = ''method''"
  "path (classify_method_addition p m) = p"
  by (simp_all add: classify_method_removal_def classify_method_addition_def)

lemma classify_parameter_simps [simp]:
  "category (classify_parameter_change p m n t r) = ''parameter''"
  "path (classify_parameter_change p m n t r) = p"
  "method (classify_parameter_change p m n t r) = Some (upper m)"
  by (simp_all add: classify_parameter_change_def)

lemma classify_schema_simps [simp]:
  "category (classify_schema_change p m n t r) = ''schema''"
  "path (classify_schema_change p m n t r) = p"
  "method (classify_schema_change p m n t r) = Some (upper m)"
  by (simp_all add: classify_schema_change_def)

lemma for_each_pure: "for_each (\<lambda>x. Inr (g x)) xs = Inr (concat (map g xs))"
  by (induction xs) simp_all

lemma for_each_pure_filter:
  "for_each (\<lambda>x. Inr (if P x then [f x] else [])) xs = Inr (map f (filter P xs))"
  by (induction xs) simp_all

lemma for_each_filter:
  assumes "for_each (\<lambda>x. bindE (g x) (\<lambda>found. Inr (if \<not> found then [f x] else []))) xs = Inr r"
  shows "r = map f (filter (\<lambda>x. g x = Inr False) xs)"
  using assms
proof (induction xs arbitrary: r)
  case Nil
  then show ?case by simp
next
  case (Cons x xs)
  then show ?case by (auto simp: bindE_eq_Inr)
qed

lemma for_each_blocks:
  assumes "for_each body xs = Inr r"
  shows "\<exists>bs. r = concat bs \<and> list_all2 (\<lambda>x b. body x = Inr b) xs bs"
  using assms
proof (induction xs arbitrary: r)
  case Nil
  then show ?case by simp
next
  case (Cons x xs)
  from Cons.prems obtain b r' where b: "body x = Inr b" and r': "for_each body xs = Inr r'"
    and r: "r = b @ r'"
    by (auto simp: bindE_eq_Inr)
  from Cons.IH [OF r'] obtain bs where "r' = concat bs" "list_all2 (\<lambda>x b. body x = Inr b) xs bs"
    by blast
  with b r have "r = concat (b # bs) \<and> list_all2 (\<lambda>x b. body x = Inr b) (x # xs) (b # bs)"
    by simp
  then show ?case by blast
qed

lemma diff_endpoints_eq:
  assumes "diff_endpoints old_paths new_paths = Inr es"
  shows "\<exists>olds news. py_iter old_paths = Inr olds \<and> py_iter new_paths = Inr news \<and>
           es = map classify_endpoint_removal (filter (\<lambda>p. py_in p new_paths = Inr False) olds)
              @ map classify_endpoint_addition (filter (\<lambda>p. py_in p old_paths = Inr False) news)"
  using assms unfolding diff_endpoints_def
  by (auto simp: bindE_eq_Inr dest!: for_each_filter)

lemma diff_parameters_in_category:
  "emits (\<lambda>c. category c = ''parameter'' \<and> path c = p \<and> method c = Some (upper m))
     (diff_parameters_in p m d d')"
  unfolding diff_parameters_in_def Let_def
  by (intro emits_intros) simp_all

lemma diff_parameters_category:
  "emits (\<lambda>c. category c = ''parameter'' \<and> path c = p \<and> method c = Some (upper m))
     (diff_parameters p m old_op new_op b)"
  unfolding diff_parameters_def
  by (intro emits_intros diff_parameters_in_category)

lemma diff_schema_category:
  "emits (\<lambda>c. category c = ''schema'' \<and> path c = p \<and> method c = Some (upper m))
     (diff_schema p m old_schema new_schema)"
  unfolding diff_schema_def Let_def
  by (intro emits_intros) simp_all

lemma diff_request_body_category:
  "emits (\<lambda>c. category c = ''schema'' \<and> path c = p \<and> method c = Some (upper m))
     (diff_request_body p m old_op new_op)"
  unfolding diff_request_body_def
  by (intro emits_intros diff_schema_category) simp_all

lemma diff_responses_category:
  "emits (\<lambda>c. category c = ''response'' \<and> path c = p \<and> method c = Some (upper m))
     (diff_responses p m old_op new_op)"
  unfolding diff_responses_def
  by (intro emits_intros) (auto dest: classify_response_change_Inr)

lemma diff_operation_block:
  assumes "diff_operation p m old_op new_op = Inr cs"
  shows "operation_block p m cs"
proof -
  from assms obtain b ps bs rs where ps: "diff_parameters p m old_op new_op b = Inr ps"
    and bs: "(if b then diff_request_body p m old_op new_op else Inr []) = Inr bs"
    and rs: "diff_responses p m old_op new_op = Inr rs" and cs: "cs = ps @ bs @ rs"
    unfolding diff_operation_def by (auto simp: bindE_eq_Inr)
  have "list_all (\<lambda>c. category c = ''parameter'' \<and> path c = p \<and> method c = Some (upper m)) ps"
    using diff_parameters_category [of p m old_op new_op b] ps by simp
  moreover have "list_all (\<lambda>c. category c = ''schema'' \<and> path c = p \<and> method c = Some (upper m)) bs"
    using diff_request_body_category [of p m old_op new_op] bs by (cases b) auto
  moreover have "list_all (\<lambda>c. category c = ''response'' \<and> path c = p \<and> method c = Some (upper m)) rs"
    using diff_responses_category [of p m old_op new_op] rs by simp
  ultimately show ?thesis
    unfolding operation_block_def cs by blast
qed

lemma diff_path_block:
  assumes "diff_path p old_item new_item = Inr cs"
  shows "\<exists>old_items new_items old_methods new_methods.
           old_item = JDict old_items \<and> new_item = JDict new_items \<and>
           select_methods old_items = Inr old_methods \<and>
           select_methods new_items = Inr new_methods \<and>
           path_block p old_methods new_methods cs"
proof -
  from assms obtain old_items where o: "old_item = JDict old_items"
    unfolding diff_path_def by (cases old_item) simp_all
  from assms obtain om where om: "select_methods old_items = Inr om"
    unfolding diff_path_def o by (cases "select_methods old_items") simp_all
  from assms obtain new_items where n: "new_item = JDict new_items"
    unfolding diff_path_def o by (cases new_item) (simp_all add: om)
  from assms obtain nm where nm: "select_methods new_items = Inr nm"
    unfolding diff_path_def o n by (cases "select_methods new_items") (simp_all add: om)
  let ?body = "\<lambda>m. if has_key nm m then
                  bindE (methods_getitem om m) (\<lambda>old_op.
                  bindE (methods_getitem nm m) (\<lambda>new_op.
                    diff_operation p m old_op new_op))
                else Inr []"
  from assms obtain changed where ch: "for_each ?body (map fst om) = Inr changed"
    and cs: "cs = map (classify_method_removal p) (filter (\<lambda>m. \<not> has_key nm m) (map fst om))
               @ map (classify_method_addition p) (filter (\<lambda>m. \<not> has_key om m) (map fst nm))
               @ changed"
    unfolding diff_path_def o n
    by (auto simp: om nm for_each_pure_filter bindE_eq_Inr)
  from for_each_blocks [OF ch] obtain ops where c: "changed = concat ops"
    and l: "list_all2 (\<lambda>m b. ?body m = Inr b) (map fst om) ops"
    by blast
  have "list_all2 (\<lambda>m ob. if has_key nm m then operation_block p m ob else ob = [])
          (map fst om) ops"
    using l
    by (rule list_all2_mono) (auto simp: bindE_eq_Inr dest: diff_operation_block split: if_splits)
  with cs c have "path_block p om nm cs"
    unfolding path_block_def by blast
  with o n om nm show ?thesis by blast
qed

lemma diff_operations_blocks:
  assumes "diff_operations old_paths new_paths = Inr os" and "py_iter old_paths = Inr olds"
  shows "\<exists>blocks. os = concat blocks \<and>
           list_all2
             (\<lambda>p b. if py_in p new_paths = Inr True
                    then \<exists>old_items new_items old_methods new_methods.
                           py_getitem old_paths p = Inr (JDict old_items) \<and>
                           py_getitem new_paths p = Inr (JDict new_items) \<and>
                           select_methods old_items = Inr old_methods \<and>
                           select_methods new_items = Inr new_methods \<and>
                           path_block p old_methods new_methods b
                    else b = [])
             olds blocks"
proof -
  let ?body = "\<lambda>p. bindE (py_in p new_paths) (\<lambda>found.
           if \<not> found then Inr []
           else
             bindE (py_getitem old_paths p) (\<lambda>old_path_item.
             bindE (py_getitem new_paths p) (\<lambda>new_path_item.
               diff_path p old_path_item new_path_item)))"
  from assms have "for_each ?body olds = Inr os"
    unfolding diff_operations_def by simp
  from for_each_blocks [OF this] obtain blocks where os: "os = concat blocks"
    and l: "list_all2 (\<lambda>p b. ?body p = Inr b) olds blocks"
    by blast
  have "list_all2
          (\<lambda>p b. if py_in p new_paths = Inr True
                 then \<exists>old_items new_items old_methods new_methods.
                        py_getitem old_paths p = Inr (JDict old_items) \<and>
                        py_getitem new_paths p = Inr (JDict new_items) \<and>
                        select_methods old_items = Inr old_methods \<and>
                        select_methods new_items = Inr new_methods \<and>
                        path_block p old_methods new_methods b
                 else b = [])
          olds blocks"
    using l
    by (rule list_all2_mono) (auto simp: bindE_eq_Inr dest: diff_path_block split: if_splits)
  with os show ?thesis by blast
qed

lemma diff_order:
  assumes "diff old_spec new_spec = Inr cs"
  shows "\<exists>old_paths new_paths.
           normalized_paths old_spec = Inr old_paths \<and> normalized_paths new_spec = Inr new_paths \<and>
           emission_order old_paths new_paths cs"
proof -
  from assms obtain old_paths new_paths es os where
    o: "normalized_paths old_spec = Inr old_paths" and n: "normalized_paths new_spec = Inr new_paths"
    and es: "diff_endpoints old_paths new_paths = Inr es"
    and os: "diff_operations old_paths new_paths = Inr os" and cs: "cs = es @ os"
    unfolding diff_def normalized_paths_def by (auto simp: bindE_eq_Inr)
  from diff_endpoints_eq [OF es] obtain olds news where
    i: "py_iter old_paths = Inr olds" "py_iter new_paths = Inr news" and
    e: "es = map classify_endpoint_removal (filter (\<lambda>p. py_in p new_paths = Inr False) olds)
              @ map classify_endpoint_addition (filter (\<lambda>p. py_in p old_paths = Inr False) news)"
    by blast
  from diff_operations_blocks [OF os i(1)] obtain blocks where
    b: "os = concat blocks" and
    l: "list_all2
             (\<lambda>p b. if py_in p new_paths = Inr True
                    then \<exists>old_items new_items old_methods new_methods.
                           py_getitem old_paths p = Inr (JDict old_items) \<and>
                           py_getitem new_paths p = Inr (JDict new_items) \<and>
                           select_methods old_items = Inr old_methods \<and>
                           select_methods new_items = Inr new_methods \<and>
                           path_block p old_methods new_methods b
                    else b = [])
             olds blocks"
    by blast
  have c: "cs = map classify_endpoint_removal (filter (\<lambda>p. py_in p new_paths = Inr False) olds)
           @ map classify_endpoint_addition (filter (\<lambda>p. py_in p old_paths = Inr False) news)
           @ concat blocks"
    by (simp add: cs e b)
  have "emission_order old_paths new_paths cs"
    unfolding emission_order_def
    by (intro exI [of _ olds] exI [of _ news] exI [of _ blocks] conjI i c l)
  with o n show ?thesis by blast
qed

lemma list_all2_rightD:
  assumes "list_all2 R xs ys" and "y \<in> set ys"
  shows "\<exists>x \<in> set xs. R x y"
  using assms by (induction rule: list_all2_induct) auto

lemma operation_block_category:
  "operation_block p m cs \<Longrightarrow> list_all (\<lambda>c. category c \<noteq> ''endpoint'') cs"
  unfolding operation_block_def by (auto simp: list_all_iff)

lemma path_block_category:
  assumes "path_block p om nm cs"
  shows "list_all (\<lambda>c. category c \<noteq> ''endpoint'') cs"
proof -
  from assms obtain ops where cs: "cs = map (classify_method_removal p)
               (filter (\<lambda>m. \<not> has_key nm m) (map fst om))
           @ map (classify_method_addition p)
               (filter (\<lambda>m. \<not> has_key om m) (map fst nm))
           @ concat ops"
    and l: "list_all2 (\<lambda>m ob. if has_key nm m then operation_block p m ob else ob = [])
          (map fst om) ops"
    unfolding path_block_def by blast
  have "list_all (\<lambda>c. category c \<noteq> ''endpoint'') ob" if "ob \<in> set ops" for ob
  proof -
    from list_all2_rightD [OF l that]
    obtain m where "if has_key nm m then operation_block p m ob else ob = []"
      by blast
    then show ?thesis
      by (auto dest: operation_block_category split: if_splits)
  qed
  then show ?thesis
    unfolding cs by (auto simp: list_all_iff)
qed

lemma emission_order_endpoints:
  assumes "emission_order old_paths new_paths cs"
  shows "\<exists>olds news. py_iter old_paths = Inr olds \<and> py_iter new_paths = Inr news \<and>
           endpoint_removed_paths cs = {p \<in> set olds. py_in p new_paths = Inr False} \<and>
           endpoint_added_paths cs = {p \<in> set news. py_in p old_paths = Inr False}"
proof -
  from assms obtain olds news blocks where i: "py_iter old_paths = Inr olds" "py_iter new_paths = Inr news"
    and cs: "cs = map classify_endpoint_removal (filter (\<lambda>p. py_in p new_paths = Inr False) olds)
           @ map classify_endpoint_addition (filter (\<lambda>p. py_in p old_paths = Inr False) news)
           @ concat blocks"
    and l: "list_all2
          (\<lambda>p b. if py_in p new_paths = Inr True
                 then \<exists>old_items new_items old_methods new_methods.
                        py_getitem old_paths p = Inr (JDict old_items) \<and>
                        py_getitem new_paths p = Inr (JDict new_items) \<and>
                        select_methods old_items = Inr old_methods \<and>
                        select_methods new_items = Inr new_methods \<and>
                        path_block p old_methods new_methods b
                 else b = [])
          olds blocks"
    unfolding emission_order_def by blast
  have "list_all (\<lambda>c. category c \<noteq> ''endpoint'') b" if "b \<in> set blocks" for b
  proof -
    from list_all2_rightD [OF l that]
    obtain p where "if py_in p new_paths = Inr True
                 then \<exists>old_items new_items old_methods new_methods.
                        py_getitem old_paths p = Inr (JDict old_items) \<and>
                        py_getitem new_paths p = Inr (JDict new_items) \<and>
                        select_methods old_items = Inr old_methods \<and>
                        select_methods new_items = Inr new_methods \<and>
                        path_block p old_methods new_methods b
                 else b = []"
      by blast
    then show ?thesis
      by (auto dest: path_block_category split: if_splits)
  qed
  then have b: "filter (\<lambda>c. category c = ''endpoint'' \<and> Q c) (concat blocks) = []" for Q
    by (auto simp: filter_empty_conv list_all_iff)
  have "endpoint_removed_paths cs = {p \<in> set olds. py_in p new_paths = Inr False}"
    unfolding endpoint_removed_paths_def cs
    by (auto simp: b filter_map comp_def image_iff)
  moreover have "endpoint_added_paths cs = {p \<in> set news. py_in p old_paths = Inr False}"
    unfolding endpoint_added_paths_def cs
    by (auto simp: b filter_map comp_def image_iff)
  ultimately show ?thesis using i by blast
qed

lemma diff_endpoint_duality:
  assumes "diff a b = Inr cs" and "diff b a = Inr cs'"
  shows "endpoint_removed_paths cs = endpoint_added_paths cs' \<and>
         endpoint_added_paths cs = endpoint_removed_paths cs'"
proof -
  from diff_order [OF assms(1)] obtain pa pb where
    p: "normalized_paths a = Inr pa" "normalized_paths b = Inr pb" and e: "emission_order pa pb cs"
    by blast
  from diff_order [OF assms(2)] p have e': "emission_order pb pa cs'"
    by auto
  from emission_order_endpoints [OF e] emission_order_endpoints [OF e'] show ?thesis
    by auto
qed

text \<open>
  Claim C3, as the code has it. A successful \<open>diff\<close> emits first all endpoint changes
  (every removed path, in the order of the old document, before every added path, in the
  order of the new document). Method changes and operation-level changes are not two
  global steps: they are emitted path by path, in the order of the old document, and for
  each common path its method-removed changes, then its method-added changes, then the
  operation-level changes (parameters, request body, responses) of its common methods.
\<close>

theorem diff_emission_order:
  assumes "diff old_spec new_spec = Inr cs"
  shows "\<exists>old_paths new_paths.
           normalized_paths old_spec = Inr old_paths \<and> normalized_paths new_spec = Inr new_paths \<and>
           emission_order old_paths new_paths cs"
  using assms by (rule diff_order)

theorem diff_emission_order_witness:
  "diff (JDict [(JStr ''openapi'', JStr ''3.0.0''),
          (JStr ''paths'', JDict [(JStr ''/a'', JDict [(JStr ''get'', JDict [(JStr ''responses'', JDict [(JStr ''200'', JDict [])])])]),
                             (JStr ''/b'', JDict [(JStr ''get'', JDict [])]),
                             (JStr ''/c'', JDict [])])])
        (JDict [(JStr ''openapi'', JStr ''3.0.0''),
          (JStr ''paths'', JDict [(JStr ''/a'', JDict [(JStr ''get'', JDict [])]),
                             (JStr ''/b'', JDict [(JStr ''get'', JDict []), (JStr ''post'', JDict [])])])])
     = Inr [classify_endpoint_removal (JStr ''/c''),
            \<lparr>type = ''breaking'', category = ''response'', path = JStr ''/a'',
             method = Some ''GET'', field = Some (JStr ''Response 200''),
             message = ''Success response (2xx) removed''\<rparr>,
            classify_method_addition (JStr ''/b'') ''post''] \<and>
   emission_order
     (JDict [(JStr ''/a'', JDict [(JStr ''get'', JDict [(JStr ''responses'', JDict [(JStr ''200'', JDict [])])])]),
             (JStr ''/b'', JDict [(JStr ''get'', JDict [])]),
             (JStr ''/c'', JDict [])])
     (JDict [(JStr ''/a'', JDict [(JStr ''get'', JDict [])]),
             (JStr ''/b'', JDict [(JStr ''get'', JDict []), (JStr ''post'', JDict [])])])
     [classify_endpoint_removal (JStr ''/c''),
      \<lparr>type = ''breaking'', category = ''response'', path = JStr ''/a'',
             method = Some ''GET'', field = Some (JStr ''Response 200''),
             message = ''Success response (2xx) removed''\<rparr>,
      classify_method_addition (JStr ''/b'') ''post'']"
proof -
  let ?old = "JDict [(JStr ''openapi'', JStr ''3.0.0''),
          (JStr ''paths'', JDict [(JStr ''/a'', JDict [(JStr ''get'', JDict [(JStr ''responses'', JDict [(JStr ''200'', JDict [])])])]),
                             (JStr ''/b'', JDict [(JStr ''get'', JDict [])]),
                             (JStr ''/c'', JDict [])])]"
  let ?new = "JDict [(JStr ''openapi'', JStr ''3.0.0''),
          (JStr ''paths'', JDict [(JStr ''/a'', JDict [(JStr ''get'', JDict [])]),
                             (JStr ''/b'', JDict [(JStr ''get'', JDict []), (JStr ''post'', JDict [])])])]"
  let ?cs = "[classify_endpoint_removal (JStr ''/c''),
            \<lparr>type = ''breaking'', category = ''response'', path = JStr ''/a'',
             method = Some ''GET'', field = Some (JStr ''Response 200''),
             message = ''Success response (2xx) removed''\<rparr>,
            classify_method_addition (JStr ''/b'') ''post'']"
  have d: "diff ?old ?new = Inr ?cs"
    by code_simp
  have o: "normalized_paths ?old = Inr (JDict [(JStr ''/a'', JDict [(JStr ''get'', JDict [(JStr ''responses'', JDict [(JStr ''200'', JDict [])])])]),
             (JStr ''/b'', JDict [(JStr ''get'', JDict [])]),
             (JStr ''/c'', JDict [])])"
    by code_simp
  have n: "normalized_paths ?new = Inr (JDict [(JStr ''/a'', JDict [(JStr ''get'', JDict [])]),
             (JStr ''/b'', JDict [(JStr ''get'', JDict []), (JStr ''post'', JDict [])])])"
    by code_simp
  from diff_emission_order [OF d] o n d show ?thesis
    by simp
qed

text \<open>
  Two documents with two common paths: the response removed under the first path is
  emitted before the method added under the second one.
\<close>

theorem diff_interleaves_paths_counterexample:
  "diff (JDict [(JStr ''openapi'', JStr ''3.0.0''),
          (JStr ''paths'', JDict [(JStr ''/a'', JDict [(JStr ''get'', JDict [(JStr ''responses'', JDict [(JStr ''200'', JDict [])])])]),
                             (JStr ''/b'', JDict [(JStr ''get'', JDict [])])])])
        (JDict [(JStr ''openapi'', JStr ''3.0.0''),
          (JStr ''paths'', JDict [(JStr ''/a'', JDict [(JStr ''get'', JDict [])]),
                             (JStr ''/b'', JDict [(JStr ''get'', JDict []), (JStr ''post'', JDict [])])])])
     = Inr [\<lparr>type = ''breaking'', category = ''response'', path = JStr ''/a'',
             method = Some ''GET'', field = Some (JStr ''Response 200''),
             message = ''Success response (2xx) removed''\<rparr>,
            \<lparr>type = ''non_breaking'', category = ''method'', path = JStr ''/b'',
             method = Some ''POST'', field = None, message = ''New HTTP method''\<rparr>]"
  by code_simp


section \<open>Documents on which nothing raises\<close>

lemma returns_Inr [simp]: "returns (Inr x)"
  by (simp add: returns_def)

lemma returns_Inl [simp]: "\<not> returns (Inl e)"
  by (simp add: returns_def)

lemma returns_iff: "returns r \<longleftrightarrow> (\<exists>x. r = Inr x)"
  by (cases r) simp_all

lemma returns_bindE:
  assumes "returns m" and "\<And>x. m = Inr x \<Longrightarrow> returns (f x)"
  shows "returns (bindE m f)"
  using assms by (cases m) simp_all

lemma returns_for_each:
  assumes "\<And>x. x \<in> set xs \<Longrightarrow> returns (body x)"
  shows "returns (for_each body xs)"
  using assms
proof (induction xs)
  case Nil
  then show ?case by simp
next
  case (Cons x xs)
  have "returns (body x)" by (rule Cons.prems) simp
  moreover have "returns (for_each body xs)"
    by (rule Cons.IH) (simp add: Cons.prems)
  ultimately show ?case
    by (auto simp: returns_iff)
qed

lemma returns_if:
  assumes "b \<Longrightarrow> returns x" and "\<not> b \<Longrightarrow> returns y"
  shows "returns (if b then x else y)"
  using assms by simp

lemmas returns_intros = returns_bindE returns_for_each returns_if

lemma dict_set_entry:
  "(a, b) \<in> set (dict_set d k v) \<Longrightarrow>
     (b = v \<and> key_of a = key_of k \<and> (a = k \<or> a \<in> fst ` set d)) \<or> (a, b) \<in> set d"
  by (induction d) (auto split: if_splits)

lemma normalize_path_item_entry:
  "normalize_path_item acc items = Inr r \<Longrightarrow> (k, v) \<in> set r \<Longrightarrow>
     (k, v) \<in> set acc \<or>
     (\<exists>m. (JStr m, v) \<in> set items \<and> lower m \<in> set methods \<and>
          (k = JStr (lower m) \<or> (k \<in> fst ` set acc \<and> key_of k = KStr (lower m))))"
proof (induction items arbitrary: acc)
  case Nil
  then show ?case by simp
next
  case (Cons kv items)
  obtain m w where kv: "kv = (m, w)" by (cases kv)
  from Cons.prems(1) obtain s where m: "m = JStr s"
    unfolding kv by (cases m) simp_all
  let ?acc = "if lower s \<in> set methods then dict_set acc (JStr (lower s)) w else acc"
  from Cons.prems(1) have "normalize_path_item ?acc items = Inr r"
    unfolding kv m by simp
  from Cons.IH [OF this Cons.prems(2)]
  have "(k, v) \<in> set ?acc \<or>
     (\<exists>m. (JStr m, v) \<in> set items \<and> lower m \<in> set methods \<and>
          (k = JStr (lower m) \<or> (k \<in> fst ` set ?acc \<and> key_of k = KStr (lower m))))" .
  then show ?case
  proof (elim disjE exE conjE)
    assume "(k, v) \<in> set ?acc"
    then show ?thesis
      unfolding kv m by (auto dest!: dict_set_entry split: if_splits)
  next
    fix m' assume "(JStr m', v) \<in> set items" "lower m' \<in> set methods" "k = JStr (lower m')"
    then show ?thesis by auto
  next
    fix m' assume "(JStr m', v) \<in> set items" "lower m' \<in> set methods"
      "k \<in> fst ` set ?acc" "key_of k = KStr (lower m')"
    then show ?thesis by auto
  qed
qed


lemma normalize_path_item_returns:
  "list_all (\<lambda>kv. is_str (fst kv)) items \<Longrightarrow> \<exists>r. normalize_path_item acc items = Inr r"
proof (induction items arbitrary: acc)
  case Nil
  then show ?case by simp
next
  case (Cons kv items)
  obtain m w where kv: "kv = (m, w)" by (cases kv)
  from Cons.prems obtain s where m: "m = JStr s"
    unfolding kv by (cases m) simp_all
  from Cons.prems have "list_all (\<lambda>kv. is_str (fst kv)) items" by simp
  from Cons.IH [OF this] show ?case
    unfolding kv m by simp
qed

lemma path_item_ok_keys:
  assumes "path_item_ok (JDict items)"
  shows "list_all (\<lambda>kv. is_str (fst kv)) items"
proof -
  have "is_str (fst kv)" if "kv \<in> set items" for kv
    using assms that by (cases "fst kv") (auto simp: path_item_ok_def list_all_iff)
  then show ?thesis by (simp add: list_all_iff)
qed

lemma path_item_ok_entry:
  "path_item_ok (JDict items) \<Longrightarrow> (JStr m, v) \<in> set items \<Longrightarrow> lower m \<in> set methods \<Longrightarrow>
   operation_ok v"
  unfolding path_item_ok_def list_all_iff by fastforce

lemma normalize_path_item_ok:
  assumes "path_item_ok (JDict items)"
  shows "\<exists>r. normalize_path_item [] items = Inr r \<and> path_item_ok (JDict r)"
proof -
  from normalize_path_item_returns [OF path_item_ok_keys [OF assms], of "[]"]
  obtain r where r: "normalize_path_item [] items = Inr r" by blast
  have "case fst kv of
          JStr k \<Rightarrow> (if lower k \<in> set methods then operation_ok (snd kv) else True)
        | _ \<Rightarrow> False" if "kv \<in> set r" for kv
  proof -
    obtain k v where kv: "kv = (k, v)" by (cases kv)
    from normalize_path_item_entry [OF r that [unfolded kv]] obtain m where
      m: "(JStr m, v) \<in> set items" "lower m \<in> set methods" "k = JStr (lower m)"
      by auto
    from path_item_ok_entry [OF assms m(1,2)] show ?thesis
      by (simp add: kv m(3))
  qed
  then have "path_item_ok (JDict r)"
    by (simp add: path_item_ok_def list_all_iff)
  with r show ?thesis by blast
qed

lemma normalize_paths_loop_ok:
  assumes "list_all (\<lambda>kv. hashable (fst kv) \<and> path_item_ok (snd kv)) ps"
    and "list_all (\<lambda>kv. hashable (fst kv) \<and> path_item_ok (snd kv)) acc"
  shows "\<exists>r. normalize_paths_loop acc ps = Inr r \<and>
           list_all (\<lambda>kv. hashable (fst kv) \<and> path_item_ok (snd kv)) r"
  using assms
proof (induction ps arbitrary: acc)
  case Nil
  then show ?case by simp
next
  case (Cons kv ps)
  obtain p item where kv: "kv = (p, item)" by (cases kv)
  from Cons.prems(1) obtain items where item: "item = JDict items" and ok: "path_item_ok (JDict items)"
    and hp: "hashable p"
    unfolding kv by (cases item) (auto simp: path_item_ok_def)
  from normalize_path_item_ok [OF ok] obtain nitems where
    ni: "normalize_path_item [] items = Inr nitems" and nok: "path_item_ok (JDict nitems)"
    by blast
  have "list_all (\<lambda>kv. hashable (fst kv) \<and> path_item_ok (snd kv)) (dict_set acc p (JDict nitems))"
    using Cons.prems(2) nok hp
    unfolding list_all_iff by (auto dest!: dict_set_entry)
  from Cons.IH [OF _ this] Cons.prems(1) show ?case
    unfolding kv item by (simp add: ni)
qed

lemma normalized_paths_ok:
  assumes "dict_contains d (JStr ''swagger'') \<or> dict_contains d (JStr ''openapi'')"
    and "paths_ok (dict_get d ''paths'' (JDict []))"
  shows "\<exists>np. normalized_paths (JDict d) = Inr np \<and> paths_ok np"
proof -
  from assms(2) obtain ps where ps: "dict_get d ''paths'' (JDict []) = JDict ps"
    and ok: "list_all (\<lambda>kv. hashable (fst kv) \<and> path_item_ok (snd kv)) ps"
    by (cases "dict_get d ''paths'' (JDict [])") (auto simp: paths_ok_def)
  from normalize_paths_loop_ok [OF ok, of "[]"] obtain r where
    r: "normalize_paths_loop [] ps = Inr r"
    and rok: "list_all (\<lambda>kv. hashable (fst kv) \<and> path_item_ok (snd kv)) r"
    by auto
  have "normalized_paths (JDict d) = Inr (JDict r)"
    using assms(1) ps r
    by (auto simp: normalized_paths_def normalize_def normalize_swagger_2_def
          normalize_openapi_3_def normalize_paths_swagger2_def normalize_paths_openapi3_def
          dict_get_Cons)
  moreover have "paths_ok (JDict r)"
    using rok by (simp add: paths_ok_def)
  ultimately show ?thesis by blast
qed

lemma dict_set_inv:
  assumes "list_all (\<lambda>kv. hashable (fst kv) \<and> is_dict (snd kv)) d" and "hashable k" and "is_dict v"
  shows "list_all (\<lambda>kv. hashable (fst kv) \<and> is_dict (snd kv)) (dict_set d k v)"
  using assms unfolding list_all_iff by (auto dest!: dict_set_entry)

lemma params_set_ok:
  assumes "params_inv params" and "loc \<in> set [''query'', ''path'', ''header'', ''body'']"
    and "hashable n" and "is_dict info"
  shows "\<exists>params'. params_set params (JStr loc) n info = Inr params' \<and> params_inv params'"
proof -
  from assms(1,2) obtain d where d: "dict_find params (JStr loc) = Some (JDict d)"
    and dd: "list_all (\<lambda>kv. hashable (fst kv) \<and> is_dict (snd kv)) d"
    unfolding params_inv_def by (auto split: option.splits json.splits)
  have "params_inv (dict_set params (JStr loc) (JDict (dict_set d n info)))"
    using assms(1) dict_set_inv [OF dd assms(3,4)]
    unfolding params_inv_def by (auto simp: dict_find_dict_set split: option.splits json.splits)
  with d assms(3) show ?thesis
    by (simp add: params_set_def)
qed

lemma extract_parameters_loop_ok:
  assumes "list_all param_ok ps" and "params_inv params"
  shows "\<exists>r. extract_parameters_loop b params ps = Inr r \<and> params_inv r"
  using assms
proof (induction ps arbitrary: params)
  case Nil
  then show ?case by simp
next
  case (Cons param ps)
  from Cons.prems(1) have pk: "param_ok param" and rest: "list_all param_ok ps"
    by simp_all
  from pk obtain d where param: "param = JDict d"
    by (cases param) (simp_all add: param_ok_def)
  from pk have ok: "param_ok (JDict d)"
    by (simp add: param)
  show ?case
  proof (cases "truthy (dict_get d ''in'' JNull) \<and> truthy (dict_get d ''name'' JNull)")
    case False
    with Cons.IH [OF rest Cons.prems(2)] show ?thesis
      unfolding param by auto
  next
    case True
    with ok obtain loc where loc: "dict_get d ''in'' JNull = JStr loc"
      "loc \<in> set [''query'', ''path'', ''header'', ''body'']"
      and h: "hashable (dict_get d ''name'' JNull)"
      unfolding param_ok_def by auto
    let ?info = "JDict [(JStr ''required'', dict_get d ''required'' (JBool False)),
                       (JStr (if b then ''schema'' else ''type''),
                        if b then dict_get d ''schema'' (JDict []) else dict_get d ''type'' JNull)]"
    from params_set_ok [OF Cons.prems(2) loc(2) h, of ?info] obtain params' where
      s: "params_set params (JStr loc) (dict_get d ''name'' JNull) ?info = Inr params'"
      and inv: "params_inv params'"
      by auto
    from Cons.IH [OF rest inv] True s loc(1) show ?thesis
      unfolding param by (cases b) auto
  qed
qed

lemma extract_body_loop_ok:
  assumes "list_all (\<lambda>kv. hashable (fst kv) \<and> is_dict (snd kv)) content" and "params_inv params"
  shows "\<exists>r. extract_body_loop (JDict rb) params content = Inr r \<and> params_inv r"
  using assms
proof (induction content arbitrary: params)
  case Nil
  then show ?case by simp
next
  case (Cons kv content)
  obtain ct cspec where kv: "kv = (ct, cspec)" by (cases kv)
  from Cons.prems(1) obtain cd where cspec: "cspec = JDict cd" and hct: "hashable ct"
    and rest: "list_all (\<lambda>kv. hashable (fst kv) \<and> is_dict (snd kv)) content"
    unfolding kv by (cases cspec) auto
  let ?info = "JDict [(JStr ''required'', dict_get rb ''required'' (JBool False)),
                     (JStr ''schema'', dict_get cd ''schema'' (JDict []))]"
  from params_set_ok [OF Cons.prems(2) _ hct, of "''body''" ?info] obtain params' where
    s: "params_set params (JStr ''body'') ct ?info = Inr params'" and inv: "params_inv params'"
    by auto
  from Cons.IH [OF rest inv] s show ?case
    unfolding kv cspec by simp
qed

lemma request_body_ok_content:
  assumes "request_body_ok rb" and "truthy rb"
  shows "\<exists>d content. rb = JDict d \<and> dict_get d ''content'' (JDict []) = JDict content \<and>
           list_all (\<lambda>kv. hashable (fst kv) \<and>
              (\<exists>cd. snd kv = JDict cd \<and> schema_ok (dict_get cd ''schema'' (JDict [])))) content"
proof -
  from assms obtain d where d: "rb = JDict d"
    by (cases rb) (simp_all add: request_body_ok_def)
  from assms obtain content where c: "dict_get d ''content'' (JDict []) = JDict content"
    unfolding d by (cases "dict_get d ''content'' (JDict [])") (simp_all add: request_body_ok_def)
  from assms have l: "list_all (\<lambda>kv. hashable (fst kv) \<and>
                                 (case snd kv of
                                    JDict content_spec \<Rightarrow>
                                      schema_ok (dict_get content_spec ''schema'' (JDict []))
                                  | _ \<Rightarrow> False)) content"
    unfolding d by (simp add: request_body_ok_def c)
  have "hashable (fst kv) \<and> (\<exists>cd. snd kv = JDict cd \<and> schema_ok (dict_get cd ''schema'' (JDict [])))"
    if "kv \<in> set content" for kv
    using that l by (cases "snd kv") (auto simp: list_all_iff)
  then have "list_all (\<lambda>kv. hashable (fst kv) \<and>
              (\<exists>cd. snd kv = JDict cd \<and> schema_ok (dict_get cd ''schema'' (JDict [])))) content"
    unfolding list_all_iff by blast
  with d c show ?thesis by blast
qed

lemma extract_parameters_ok:
  assumes "operation_ok (JDict d)"
  shows "\<exists>r. extract_parameters (JDict d) b = Inr (JDict r) \<and> params_inv r"
proof -
  let ?init = "[(JStr ''query'', JDict []), (JStr ''path'', JDict []),
                (JStr ''header'', JDict []), (JStr ''body'', JDict [])]"
  have init: "params_inv ?init"
    by (simp add: params_inv_def dict_find_Cons)
  from assms obtain ps where ps: "dict_get d ''parameters'' (JList []) = JList ps"
    and pok: "list_all param_ok ps"
    and rbok: "request_body_ok (dict_get d ''requestBody'' (JDict []))"
    unfolding operation_ok_def parameters_ok_def by (auto split: json.splits)
  show ?thesis
  proof (cases b)
    case False
    from extract_parameters_loop_ok [OF pok init, of False] ps False show ?thesis
      by (auto simp: extract_parameters_def)
  next
    case True
    from extract_parameters_loop_ok [OF pok init, of True] obtain r1 where
      r1: "extract_parameters_loop True ?init ps = Inr r1" and inv1: "params_inv r1"
      by auto
    show ?thesis
    proof (cases "truthy (dict_get d ''requestBody'' (JDict []))")
      case False
      with r1 inv1 ps True show ?thesis
        by (auto simp: extract_parameters_def)
    next
      case t: True
      from request_body_ok_content [OF rbok t] obtain rb content where
        rb: "dict_get d ''requestBody'' (JDict []) = JDict rb"
        and c: "dict_get rb ''content'' (JDict []) = JDict content"
        and cok: "list_all (\<lambda>kv. hashable (fst kv) \<and>
              (\<exists>cd. snd kv = JDict cd \<and> schema_ok (dict_get cd ''schema'' (JDict [])))) content"
        by auto
      have "list_all (\<lambda>kv. hashable (fst kv) \<and> is_dict (snd kv)) content"
        using cok by (auto simp: list_all_iff)
      from extract_body_loop_ok [OF this inv1, of rb] r1 ps True t rb c show ?thesis
        by (auto simp: extract_parameters_def)
    qed
  qed
qed


lemma returns_py_get: "is_dict x \<Longrightarrow> returns (py_get x k dflt)"
  by (cases x) simp_all

lemma returns_py_iter_dict: "returns (py_iter (JDict d))"
  by simp

lemma py_iter_dict_key: "py_iter (JDict d) = Inr xs \<Longrightarrow> x \<in> set xs \<Longrightarrow> \<exists>v. (x, v) \<in> set d"
  by fastforce

lemma returns_py_in_key:
  assumes "py_iter (JDict d) = Inr xs" and "x \<in> set xs" and "list_all (\<lambda>kv. hashable (fst kv) \<and> P (snd kv)) d"
  shows "returns (py_in x (JDict d'))"
proof -
  from py_iter_dict_key [OF assms(1,2)] assms(3) have "hashable x"
    by (auto simp: list_all_iff)
  then show ?thesis by simp
qed

lemma py_in_key_True:
  assumes "py_iter (JDict d) = Inr xs" and "x \<in> set xs" and "list_all (\<lambda>kv. hashable (fst kv) \<and> P (snd kv)) d"
  shows "py_in x (JDict d) = Inr True"
proof -
  from py_iter_dict_key [OF assms(1,2)] obtain v where v: "(x, v) \<in> set d" by blast
  with assms(3) have "hashable x"
    by (auto simp: list_all_iff)
  with dict_contains_key [OF v] show ?thesis by simp
qed

lemma returns_getitem_in:
  "py_in x (JDict d) = Inr True \<Longrightarrow> returns (py_getitem (JDict d) x)"
  by (auto simp: dict_contains_find split: if_splits)

lemma dict_getitem_value:
  assumes "py_getitem (JDict d) k = Inr v" and "list_all (\<lambda>kv. Q (fst kv) \<and> P (snd kv)) d"
  shows "P v"
proof -
  from assms(1) have "dict_find d k = Some v"
    by (auto split: if_splits option.splits)
  from dict_find_mem [OF this] assms(2) show ?thesis
    by (auto simp: list_all_iff)
qed

lemma diff_parameters_in_returns:
  assumes "list_all (\<lambda>kv. hashable (fst kv) \<and> is_dict (snd kv)) d"
    and "list_all (\<lambda>kv. hashable (fst kv) \<and> is_dict (snd kv)) d'"
  shows "returns (diff_parameters_in p m (JDict d) (JDict d'))"
proof -
  have removed: "returns (bindE (py_in x (JDict d')) (\<lambda>found.
              Inr (if \<not> found then [classify_parameter_change p m x ''removed'' False]
                   else [])))"
    if "py_iter (JDict d) = Inr xs" "x \<in> set xs" for x xs
  proof -
    from returns_py_in_key [OF that assms(1), of d'] obtain found where
      "py_in x (JDict d') = Inr found" by (auto simp: returns_iff simp del: py_in.simps)
    then show ?thesis by (simp del: py_in.simps)
  qed
  have added: "returns (bindE (py_in x (JDict d)) (\<lambda>found.
              if \<not> found then
                bindE (py_getitem (JDict d') x) (\<lambda>new_param.
                bindE (py_get new_param ''required'' (JBool False)) (\<lambda>is_required.
                  Inr [classify_parameter_change p m x ''added'' (truthy is_required)]))
              else Inr []))"
    if "py_iter (JDict d') = Inr xs" "x \<in> set xs" for x xs
  proof -
    from returns_py_in_key [OF that assms(2), of d] obtain found where
      f: "py_in x (JDict d) = Inr found" by (auto simp: returns_iff simp del: py_in.simps)
    from returns_getitem_in [OF py_in_key_True [OF that assms(2)]] obtain v where
      v: "py_getitem (JDict d') x = Inr v" by (auto simp: returns_iff simp del: py_getitem.simps)
    from dict_getitem_value [OF v assms(2)] obtain e where "v = JDict e"
      by (cases v) simp_all
    then show ?thesis
      by (simp add: f v del: py_in.simps py_getitem.simps)
  qed
  have changed: "returns (bindE (py_in x (JDict d')) (\<lambda>found.
              if found then
                bindE (py_getitem (JDict d) x) (\<lambda>old_param.
                bindE (py_getitem (JDict d') x) (\<lambda>new_param.
                bindE (py_get old_param ''schema'' JNull) (\<lambda>old_schema.
                bindE (if truthy old_schema then Inr old_schema
                       else py_get old_param ''type'' (JStr [])) (\<lambda>old_value.
                bindE (py_get new_param ''schema'' JNull) (\<lambda>new_schema.
                bindE (if truthy new_schema then Inr new_schema
                       else py_get new_param ''type'' (JStr [])) (\<lambda>new_value.
                  let old_type = py_str old_value; new_type = py_str new_value
                  in Inr (if old_type \<noteq> new_type \<and> old_type \<noteq> [] \<and> new_type \<noteq> []
                          then [classify_parameter_change p m x ''type_changed'' False]
                          else [])))))))
              else Inr []))"
    if "py_iter (JDict d) = Inr xs" "x \<in> set xs" for x xs
  proof -
    from returns_py_in_key [OF that assms(1), of d'] obtain found where
      f: "py_in x (JDict d') = Inr found" by (auto simp: returns_iff simp del: py_in.simps)
    show ?thesis
    proof (cases found)
      case False
      with f show ?thesis by (simp del: py_in.simps)
    next
      case True
      from returns_getitem_in [OF py_in_key_True [OF that assms(1)]] obtain ov where
        ov: "py_getitem (JDict d) x = Inr ov" by (auto simp: returns_iff simp del: py_getitem.simps)
      from f True have ft: "py_in x (JDict d') = Inr True" by (simp del: py_in.simps)
      from returns_getitem_in [OF ft] obtain nv where
        nv: "py_getitem (JDict d') x = Inr nv" by (auto simp: returns_iff simp del: py_getitem.simps)
      from dict_getitem_value [OF ov assms(1)] obtain oe where oe: "ov = JDict oe"
        by (cases ov) simp_all
      from dict_getitem_value [OF nv assms(2)] obtain ne where ne: "nv = JDict ne"
        by (cases nv) simp_all
      show ?thesis
        by (simp add: f True ov nv oe ne Let_def del: py_in.simps py_getitem.simps)
    qed
  qed
  show ?thesis
    unfolding diff_parameters_in_def
    by (intro removed added changed returns_py_iter_dict returns_intros; simp)
qed

lemma params_inv_location:
  assumes "params_inv params" and "loc \<in> set [''query'', ''path'', ''header'', ''body'']"
  shows "\<exists>d. py_get (JDict params) loc (JDict []) = Inr (JDict d) \<and>
           list_all (\<lambda>kv. hashable (fst kv) \<and> is_dict (snd kv)) d"
  using assms unfolding params_inv_def
  by (auto simp: dict_get_def split: option.splits json.splits)

lemma diff_parameters_returns:
  assumes "operation_ok (JDict old_op)" and "operation_ok (JDict new_op)"
  shows "returns (diff_parameters p m (JDict old_op) (JDict new_op) b)"
proof -
  from extract_parameters_ok [OF assms(1), of b] obtain ops where
    o: "extract_parameters (JDict old_op) b = Inr (JDict ops)" and oi: "params_inv ops" by blast
  from extract_parameters_ok [OF assms(2), of b] obtain nps where
    n: "extract_parameters (JDict new_op) b = Inr (JDict nps)" and ni: "params_inv nps" by blast
  have "returns (bindE (py_get (JDict ops) loc (JDict [])) (\<lambda>old_in_params.
           bindE (py_get (JDict nps) loc (JDict [])) (\<lambda>new_in_params.
             diff_parameters_in p m old_in_params new_in_params)))"
    if "loc \<in> set [''query'', ''path'', ''header'']" for loc
  proof -
    from that have l: "loc \<in> set [''query'', ''path'', ''header'', ''body'']" by auto
    from params_inv_location [OF oi l] obtain d where
      d: "py_get (JDict ops) loc (JDict []) = Inr (JDict d)"
         "list_all (\<lambda>kv. hashable (fst kv) \<and> is_dict (snd kv)) d" by blast
    from params_inv_location [OF ni l] obtain d' where
      d': "py_get (JDict nps) loc (JDict []) = Inr (JDict d')"
         "list_all (\<lambda>kv. hashable (fst kv) \<and> is_dict (snd kv)) d'" by blast
    from diff_parameters_in_returns [OF d(2) d'(2)] show ?thesis
      by (simp add: d(1) d'(1) del: py_get.simps)
  qed
  then show ?thesis
    unfolding diff_parameters_def o n
    by (simp del: for_each.simps set_simps py_get.simps add: returns_for_each)
qed


lemma schema_ok_parts:
  assumes "schema_ok s" and "truthy s"
  shows "\<exists>d props names. s = JDict d \<and> dict_get d ''properties'' (JDict []) = JDict props \<and>
           list_all (\<lambda>kv. hashable (fst kv) \<and> is_dict (snd kv)) props \<and>
           dict_get d ''required'' (JList []) = JList names \<and> list_all hashable names"
proof -
  from assms obtain d where d: "s = JDict d"
    by (cases s) (simp_all add: schema_ok_def)
  from assms obtain props where p: "dict_get d ''properties'' (JDict []) = JDict props"
    unfolding d by (cases "dict_get d ''properties'' (JDict [])") (simp_all add: schema_ok_def)
  from assms obtain names where n: "dict_get d ''required'' (JList []) = JList names"
    unfolding d by (cases "dict_get d ''required'' (JList [])") (simp_all add: schema_ok_def p)
  from assms have "list_all (\<lambda>kv. hashable (fst kv) \<and> is_dict (snd kv)) props \<and> list_all hashable names"
    unfolding d by (simp add: schema_ok_def p n)
  with d p n show ?thesis by blast
qed

lemma returns_py_set: "list_all hashable xs \<Longrightarrow> returns (py_set (JList xs))"
  by (simp add: py_set_def)

lemma diff_schema_returns:
  assumes "schema_ok old_schema" and "truthy old_schema"
    and "schema_ok new_schema" and "truthy new_schema"
  shows "returns (diff_schema p m old_schema new_schema)"
proof -
  from schema_ok_parts [OF assms(1,2)] obtain od ops onames where
    o: "old_schema = JDict od" "dict_get od ''properties'' (JDict []) = JDict ops"
       "dict_get od ''required'' (JList []) = JList onames"
    and ok: "list_all (\<lambda>kv. hashable (fst kv) \<and> is_dict (snd kv)) ops" "list_all hashable onames"
    by blast
  from schema_ok_parts [OF assms(3,4)] obtain nd nps nnames where
    n: "new_schema = JDict nd" "dict_get nd ''properties'' (JDict []) = JDict nps"
       "dict_get nd ''required'' (JList []) = JList nnames"
    and nk: "list_all (\<lambda>kv. hashable (fst kv) \<and> is_dict (snd kv)) nps" "list_all hashable nnames"
    by blast
  have removed: "returns (bindE (py_in x (JDict nps)) (\<lambda>found.
              Inr (if \<not> found then [classify_schema_change p m x ''removed'' False]
                   else [])))"
    if "py_iter (JDict ops) = Inr xs" "x \<in> set xs" for x xs
  proof -
    from returns_py_in_key [OF that ok(1), of nps] obtain found where
      "py_in x (JDict nps) = Inr found" by (auto simp: returns_iff simp del: py_in.simps)
    then show ?thesis by (simp del: py_in.simps)
  qed
  have added: "returns (bindE (py_in x (JDict ops)) (\<lambda>found.
              if \<not> found then
                bindE (set_contains x new_required) (\<lambda>is_required.
                  Inr [classify_schema_change p m x ''added'' is_required])
              else Inr []))"
    if "py_iter (JDict nps) = Inr xs" "x \<in> set xs" for x xs new_required
  proof -
    from returns_py_in_key [OF that nk(1), of ops] obtain found where
      f: "py_in x (JDict ops) = Inr found" by (auto simp: returns_iff simp del: py_in.simps)
    from py_iter_dict_key [OF that] nk(1) have "hashable x"
      by (auto simp: list_all_iff)
    then show ?thesis
      by (simp add: f set_contains_def del: py_in.simps)
  qed
  have changed: "returns (bindE (py_in x (JDict nps)) (\<lambda>found.
              if found then
                bindE (py_getitem (JDict ops) x) (\<lambda>old_prop.
                bindE (py_get old_prop ''type'' (JStr [])) (\<lambda>old_ty.
                bindE (py_getitem (JDict nps) x) (\<lambda>new_prop.
                bindE (py_get new_prop ''type'' (JStr [])) (\<lambda>new_ty.
                  let old_prop_type = py_str old_ty; new_prop_type = py_str new_ty
                  in Inr (if old_prop_type \<noteq> new_prop_type \<and> old_prop_type \<noteq> []
                             \<and> new_prop_type \<noteq> []
                          then [classify_schema_change p m x ''type_changed'' False]
                          else [])))))
              else Inr []))"
    if "py_iter (JDict ops) = Inr xs" "x \<in> set xs" for x xs
  proof -
    from returns_py_in_key [OF that ok(1), of nps] obtain found where
      f: "py_in x (JDict nps) = Inr found" by (auto simp: returns_iff simp del: py_in.simps)
    show ?thesis
    proof (cases found)
      case False
      with f show ?thesis by (simp del: py_in.simps)
    next
      case True
      from returns_getitem_in [OF py_in_key_True [OF that ok(1)]] obtain ov where
        ov: "py_getitem (JDict ops) x = Inr ov" by (auto simp: returns_iff simp del: py_getitem.simps)
      from f True have ft: "py_in x (JDict nps) = Inr True" by (simp del: py_in.simps)
      from returns_getitem_in [OF ft] obtain nv where
        nv: "py_getitem (JDict nps) x = Inr nv" by (auto simp: returns_iff simp del: py_getitem.simps)
      from dict_getitem_value [OF ov ok(1)] obtain oe where oe: "ov = JDict oe"
        by (cases ov) simp_all
      from dict_getitem_value [OF nv nk(1)] obtain ne where ne: "nv = JDict ne"
        by (cases nv) simp_all
      show ?thesis
        by (simp add: f True ov nv oe ne Let_def del: py_in.simps py_getitem.simps)
    qed
  qed
  have sets: "returns (py_set (JList onames))" "returns (py_set (JList nnames))"
    using ok(2) nk(2) by (simp_all add: returns_py_set)
  show ?thesis
    unfolding diff_schema_def o(1) n(1)
    by (simp only: py_get.simps o(2,3) n(2,3) bindE_Inr)
       (intro removed added changed sets returns_py_iter_dict returns_intros; simp)
qed

lemma extract_schema_loop_ok:
  assumes "list_all (\<lambda>kv. hashable (fst kv) \<and>
              (\<exists>cd. snd kv = JDict cd \<and> schema_ok (dict_get cd ''schema'' (JDict [])))) content"
  shows "\<exists>s. extract_schema_loop content = Inr s \<and> schema_ok s"
  using assms
proof (induction content)
  case Nil
  then show ?case by (simp add: schema_ok_def)
next
  case (Cons kv content)
  obtain ct cspec where kv: "kv = (ct, cspec)" by (cases kv)
  from Cons show ?case
    unfolding kv by auto
qed

lemma extract_schema_ok:
  assumes "request_body_ok rb"
  shows "\<exists>s. extract_schema_from_request_body rb = Inr s \<and> schema_ok s"
proof (cases "truthy rb")
  case False
  then show ?thesis
    by (simp add: extract_schema_from_request_body_def schema_ok_def)
next
  case True
  from request_body_ok_content [OF assms True] obtain d content where
    "rb = JDict d" "dict_get d ''content'' (JDict []) = JDict content"
    "list_all (\<lambda>kv. hashable (fst kv) \<and>
              (\<exists>cd. snd kv = JDict cd \<and> schema_ok (dict_get cd ''schema'' (JDict [])))) content"
    by blast
  with extract_schema_loop_ok [of content] True show ?thesis
    by (simp add: extract_schema_from_request_body_def)
qed

lemma diff_request_body_returns:
  assumes "operation_ok (JDict old_op)" and "operation_ok (JDict new_op)"
  shows "returns (diff_request_body p m (JDict old_op) (JDict new_op))"
proof -
  from assms have "request_body_ok (dict_get old_op ''requestBody'' (JDict []))"
    and "request_body_ok (dict_get new_op ''requestBody'' (JDict []))"
    by (simp_all add: operation_ok_def)
  from extract_schema_ok [OF this(1)] extract_schema_ok [OF this(2)]
  show ?thesis
    unfolding diff_request_body_def
    by (auto simp: diff_schema_returns)
qed

lemma dict_set_keys:
  assumes "a \<in> fst ` set (dict_set d k v)"
  shows "a = k \<or> a \<in> fst ` set d"
proof -
  from assms obtain b where "(a, b) \<in> set (dict_set d k v)" by auto
  from dict_set_entry [OF this] show ?thesis by force
qed

lemma fold_dict_set_keys:
  "(k, v) \<in> set (fold (\<lambda>(c, r) acc. dict_set acc c r) items acc) \<Longrightarrow>
     k \<in> fst ` set acc \<or> k \<in> fst ` set items"
proof (induction items arbitrary: acc)
  case Nil
  then show ?case by force
next
  case (Cons cr items)
  obtain c r where cr: "cr = (c, r)" by (cases cr)
  from Cons.IH [OF Cons.prems [unfolded cr fold_simps case_prod_conv]]
  show ?case
    unfolding cr by (auto dest!: dict_set_keys)
qed

lemma extract_responses_ok:
  assumes "operation_ok (JDict op)"
  shows "\<exists>rs. extract_responses (JDict op) = Inr (JDict rs) \<and> list_all (\<lambda>kv. is_str (fst kv)) rs"
proof -
  from assms obtain items where items: "dict_get op ''responses'' (JDict []) = JDict items"
    and keys: "list_all (\<lambda>kv. is_str (fst kv)) items"
    unfolding operation_ok_def responses_ok_def
    by (cases "dict_get op ''responses'' (JDict [])") simp_all
  let ?rs = "fold (\<lambda>(c, r) acc. dict_set acc c r) items []"
  have "is_str (fst kv)" if "kv \<in> set ?rs" for kv
  proof -
    obtain k v where kv: "kv = (k, v)" by (cases kv)
    from fold_dict_set_keys [OF that [unfolded kv]] keys show ?thesis
      by (auto simp: kv list_all_iff)
  qed
  then have "list_all (\<lambda>kv. is_str (fst kv)) ?rs"
    by (simp add: list_all_iff)
  with items show ?thesis
    by (simp add: extract_responses_def)
qed

lemma is_str_key:
  assumes "py_iter (JDict d) = Inr xs" and "x \<in> set xs" and "list_all (\<lambda>kv. is_str (fst kv)) d"
  shows "\<exists>s. x = JStr s"
proof -
  from py_iter_dict_key [OF assms(1,2)] assms(3) have "is_str x"
    by (auto simp: list_all_iff)
  then show ?thesis by (cases x) simp_all
qed

lemma diff_responses_returns:
  assumes "operation_ok (JDict old_op)" and "operation_ok (JDict new_op)"
  shows "returns (diff_responses p m (JDict old_op) (JDict new_op))"
proof -
  from extract_responses_ok [OF assms(1)] obtain ors where
    o: "extract_responses (JDict old_op) = Inr (JDict ors)" and ok: "list_all (\<lambda>kv. is_str (fst kv)) ors"
    by blast
  from extract_responses_ok [OF assms(2)] obtain nrs where
    n: "extract_responses (JDict new_op) = Inr (JDict nrs)" and nk: "list_all (\<lambda>kv. is_str (fst kv)) nrs"
    by blast
  have body: "returns (bindE (py_in x (JDict d')) (\<lambda>found.
              if \<not> found then bindE (classify_response_change p m x t) (\<lambda>c. Inr [c])
              else Inr []))"
    if "py_iter (JDict d) = Inr xs" "x \<in> set xs" "list_all (\<lambda>kv. is_str (fst kv)) d"
    for x xs d d' t
  proof -
    from is_str_key [OF that] obtain s where "x = JStr s" by blast
    then show ?thesis
      by (simp add: classify_response_change_def)
  qed
  show ?thesis
    unfolding diff_responses_def o n
    by (simp only: bindE_Inr)
       (intro body [OF _ _ ok] body [OF _ _ nk] returns_py_iter_dict returns_intros; simp)
qed

lemma diff_operation_returns:
  assumes "operation_ok (JDict old_op)" and "operation_ok (JDict new_op)"
  shows "returns (diff_operation p m (JDict old_op) (JDict new_op))"
  unfolding diff_operation_def
  by (intro returns_intros diff_parameters_returns diff_request_body_returns
        diff_responses_returns assms) simp_all

lemma select_methods_returns:
  "list_all (\<lambda>kv. is_str (fst kv)) items \<Longrightarrow> \<exists>selected. select_methods items = Inr selected"
proof (induction items)
  case Nil
  then show ?case by simp
next
  case (Cons kv items)
  obtain k v where kv: "kv = (k, v)" by (cases kv)
  from Cons.prems obtain s where k: "k = JStr s"
    unfolding kv by (cases k) simp_all
  from Cons show ?case
    unfolding kv k by auto
qed

lemma select_methods_mem:
  "select_methods items = Inr selected \<Longrightarrow> (m, v) \<in> set selected \<Longrightarrow>
     (JStr m, v) \<in> set items \<and> is_dict v \<and> lower m \<in> set methods"
proof (induction items arbitrary: selected)
  case Nil
  then show ?case by simp
next
  case (Cons kv items)
  obtain k w where kv: "kv = (k, w)" by (cases kv)
  show ?case
  proof (cases "is_dict w")
    case False
    with Cons show ?thesis unfolding kv by auto
  next
    case True
    with Cons.prems(1) obtain s rest where k: "k = JStr s" and rest: "select_methods items = Inr rest"
      and sel: "selected = (if lower s \<in> set methods then (s, w) # rest else rest)"
      unfolding kv by (cases k) (auto simp: bindE_eq_Inr)
    from Cons.IH [OF rest] Cons.prems(2) True show ?thesis
      unfolding sel kv k by (auto split: if_splits)
  qed
qed

lemma select_methods_entry:
  assumes "path_item_ok (JDict items)" and "select_methods items = Inr selected"
    and "(m, v) \<in> set selected"
  shows "\<exists>d. v = JDict d \<and> operation_ok (JDict d)"
proof -
  from select_methods_mem [OF assms(2,3)] have "(JStr m, v) \<in> set items" "is_dict v"
    "lower m \<in> set methods" by simp_all
  from path_item_ok_entry [OF assms(1) this(1,3)] this(2) show ?thesis
    by (cases v) simp_all
qed

lemma map_of_key: "k \<in> fst ` set d \<Longrightarrow> \<exists>v. map_of d k = Some v \<and> (k, v) \<in> set d"
  by (metis map_of_SomeD weak_map_of_SomeI image_iff prod.collapse map_of_eq_None_iff not_None_eq)

lemma methods_getitem_key:
  assumes "has_key d k"
  shows "\<exists>v. methods_getitem d k = Inr v \<and> (k, v) \<in> set d"
  using map_of_key [of k d] assms by (auto simp: has_key_def methods_getitem_def)

lemma diff_path_returns:
  assumes "path_item_ok old_item" and "path_item_ok new_item"
  shows "returns (diff_path p old_item new_item)"
proof -
  from assms obtain oi ni where o: "old_item = JDict oi" and n: "new_item = JDict ni"
    by (cases old_item; cases new_item) (simp_all add: path_item_ok_def)
  from select_methods_returns [OF path_item_ok_keys [OF assms(1) [unfolded o]]]
  obtain om where om: "select_methods oi = Inr om" by blast
  from select_methods_returns [OF path_item_ok_keys [OF assms(2) [unfolded n]]]
  obtain nm where nm: "select_methods ni = Inr nm" by blast
  have "returns (bindE (methods_getitem om m) (\<lambda>old_op.
                 bindE (methods_getitem nm m) (\<lambda>new_op.
                   diff_operation p m old_op new_op)))"
    if "has_key om m" and "has_key nm m" for m
  proof -
    from methods_getitem_key [OF that(1)] obtain ov where
      ov: "methods_getitem om m = Inr ov" "(m, ov) \<in> set om" by blast
    from methods_getitem_key [OF that(2)] obtain nv where
      nv: "methods_getitem nm m = Inr nv" "(m, nv) \<in> set nm" by blast
    from select_methods_entry [OF assms(1) [unfolded o] om ov(2)]
      select_methods_entry [OF assms(2) [unfolded n] nm nv(2)]
    show ?thesis
      by (auto simp: ov(1) nv(1) diff_operation_returns)
  qed
  then have "returns (for_each (\<lambda>m.
                if has_key nm m then
                  bindE (methods_getitem om m) (\<lambda>old_op.
                  bindE (methods_getitem nm m) (\<lambda>new_op.
                    diff_operation p m old_op new_op))
                else Inr [])
              (map fst om))"
    by (intro returns_for_each returns_if) (simp_all add: has_key_def)
  then show ?thesis
    unfolding diff_path_def o n
    by (auto simp: om nm for_each_pure_filter returns_iff)
qed


lemma paths_ok_item:
  assumes "paths_ok (JDict ps)" and "py_getitem (JDict ps) k = Inr v"
  shows "path_item_ok v"
  using assms(1) dict_getitem_value [OF assms(2), of hashable path_item_ok]
  by (simp add: paths_ok_def)

lemma paths_ok_entries:
  "paths_ok (JDict ps) \<Longrightarrow> list_all (\<lambda>kv. hashable (fst kv) \<and> path_item_ok (snd kv)) ps"
  by (simp add: paths_ok_def)

lemma diff_endpoints_returns:
  assumes "paths_ok old_paths" and "paths_ok new_paths"
  shows "returns (diff_endpoints old_paths new_paths)"
proof -
  from assms obtain ops nps where o: "old_paths = JDict ops" and n: "new_paths = JDict nps"
    by (cases old_paths; cases new_paths) (simp_all add: paths_ok_def)
  have body: "returns (bindE (py_in x (JDict d')) (\<lambda>found. Inr (if \<not> found then [f x] else [])))"
    if "py_iter (JDict d) = Inr xs" "x \<in> set xs" "paths_ok (JDict d)" for x xs d d' f
  proof -
    from returns_py_in_key [OF that(1,2) paths_ok_entries [OF that(3)], of d'] obtain found where
      "py_in x (JDict d') = Inr found" by (auto simp: returns_iff simp del: py_in.simps)
    then show ?thesis by (simp del: py_in.simps)
  qed
  show ?thesis
    unfolding diff_endpoints_def o n
    by (intro body [OF _ _ assms(1) [unfolded o]] body [OF _ _ assms(2) [unfolded n]]
          returns_py_iter_dict returns_intros; simp)
qed

lemma diff_operations_returns:
  assumes "paths_ok old_paths" and "paths_ok new_paths"
  shows "returns (diff_operations old_paths new_paths)"
proof -
  from assms obtain ops nps where o: "old_paths = JDict ops" and n: "new_paths = JDict nps"
    by (cases old_paths; cases new_paths) (simp_all add: paths_ok_def)
  note oe = paths_ok_entries [OF assms(1) [unfolded o]]
  have body: "returns (bindE (py_in x (JDict nps)) (\<lambda>found.
           if \<not> found then Inr []
           else
             bindE (py_getitem (JDict ops) x) (\<lambda>old_path_item.
             bindE (py_getitem (JDict nps) x) (\<lambda>new_path_item.
               diff_path x old_path_item new_path_item))))"
    if "py_iter (JDict ops) = Inr xs" "x \<in> set xs" for x xs
  proof -
    from returns_py_in_key [OF that oe, of nps] obtain found where
      f: "py_in x (JDict nps) = Inr found" by (auto simp: returns_iff simp del: py_in.simps)
    show ?thesis
    proof (cases found)
      case False
      with f show ?thesis by (simp del: py_in.simps)
    next
      case True
      from returns_getitem_in [OF py_in_key_True [OF that oe]] obtain ov where
        ov: "py_getitem (JDict ops) x = Inr ov" by (auto simp: returns_iff simp del: py_getitem.simps)
      from f True have ft: "py_in x (JDict nps) = Inr True" by (simp del: py_in.simps)
      from returns_getitem_in [OF ft] obtain nv where
        nv: "py_getitem (JDict nps) x = Inr nv" by (auto simp: returns_iff simp del: py_getitem.simps)
      from diff_path_returns [OF paths_ok_item [OF assms(1) [unfolded o] ov]
          paths_ok_item [OF assms(2) [unfolded n] nv], of x]
      show ?thesis
        by (simp add: f True ov nv del: py_in.simps py_getitem.simps)
    qed
  qed
  show ?thesis
    unfolding diff_operations_def o n
    by (intro body returns_py_iter_dict returns_intros; simp)
qed

lemma validate_spec_has_key:
  assumes "validate_spec d = Inr ()"
  shows "dict_contains d (JStr ''swagger'') \<or> dict_contains d (JStr ''openapi'')"
proof -
  have "dict_contains d (JStr k)" if "truthy (dict_get d k JNull)" for k
    using that
    by (cases "dict_find d (JStr k)") (auto simp: dict_get_def dict_contains_find)
  with assms show ?thesis
    by (auto simp: validate_spec_def Let_def split: if_splits)
qed

lemma diff_returns:
  assumes "validate_spec old_spec = Inr ()" and "validate_spec new_spec = Inr ()"
    and "expected_shape (JDict old_spec)" and "expected_shape (JDict new_spec)"
  shows "returns (diff (JDict old_spec) (JDict new_spec))"
proof -
  from normalized_paths_ok [OF validate_spec_has_key [OF assms(1)]] assms(3)
  obtain op where o: "normalized_paths (JDict old_spec) = Inr op" and ook: "paths_ok op"
    by (auto simp: expected_shape_def)
  from normalized_paths_ok [OF validate_spec_has_key [OF assms(2)]] assms(4)
  obtain np where n: "normalized_paths (JDict new_spec) = Inr np" and nok: "paths_ok np"
    by (auto simp: expected_shape_def)
  from o obtain on where on: "normalize (JDict old_spec) = Inr on" "py_get on ''paths'' (JDict []) = Inr op"
    by (auto simp: normalized_paths_def bindE_eq_Inr)
  from n obtain nn where nn: "normalize (JDict new_spec) = Inr nn" "py_get nn ''paths'' (JDict []) = Inr np"
    by (auto simp: normalized_paths_def bindE_eq_Inr)
  from diff_endpoints_returns [OF ook nok] diff_operations_returns [OF ook nok]
  show ?thesis
    unfolding diff_def by (auto simp: on nn returns_iff)
qed








section \<open>Removed and added endpoints are dual\<close>

text \<open>
  Claim C8. For every pair of valid specs (accepted by the Parser and of the shape above)
  both comparisons succeed, and the set of paths reported as endpoint-removed when
  comparing (A, B) equals the set reported as endpoint-added when comparing (B, A), and
  the set reported as endpoint-added for (A, B) equals the set reported as
  endpoint-removed for (B, A). The two equalities hold for any pair on which both
  comparisons succeed (\<open>diff_endpoint_duality\<close>).
\<close>

theorem endpoint_duality:
  assumes "validate_spec a = Inr ()" and "validate_spec b = Inr ()"
    and "expected_shape (JDict a)" and "expected_shape (JDict b)"
  shows "\<exists>cs cs'. diff (JDict a) (JDict b) = Inr cs \<and> diff (JDict b) (JDict a) = Inr cs' \<and>
           endpoint_removed_paths cs = endpoint_added_paths cs' \<and>
           endpoint_added_paths cs = endpoint_removed_paths cs'"
proof -
  from diff_returns [OF assms(1,2,3,4)] obtain cs where cs: "diff (JDict a) (JDict b) = Inr cs"
    by (auto simp: returns_iff)
  from diff_returns [OF assms(2,1,4,3)] obtain cs' where cs': "diff (JDict b) (JDict a) = Inr cs'"
    by (auto simp: returns_iff)
  from diff_endpoint_duality [OF cs cs'] cs cs' show ?thesis by blast
qed

theorem endpoint_duality_witness:
  "diff (JDict [(JStr ''openapi'', JStr ''3.0.0''), (JStr ''info'', JDict [(JStr ''title'', JStr ''API'')]),
          (JStr ''paths'', JDict [(JStr ''/users'', JDict [(JStr ''get'', JDict [])]),
                                  (JStr ''/posts'', JDict [(JStr ''get'', JDict [])])])])
        (JDict [(JStr ''swagger'', JStr ''2.0''), (JStr ''info'', JDict [(JStr ''title'', JStr ''API'')]),
          (JStr ''paths'', JDict [(JStr ''/users'', JDict [(JStr ''get'', JDict [])]),
                                  (JStr ''/tags'', JDict [])])])
     = Inr [classify_endpoint_removal (JStr ''/posts''), classify_endpoint_addition (JStr ''/tags'')] \<and>
   diff (JDict [(JStr ''swagger'', JStr ''2.0''), (JStr ''info'', JDict [(JStr ''title'', JStr ''API'')]),
          (JStr ''paths'', JDict [(JStr ''/users'', JDict [(JStr ''get'', JDict [])]),
                                  (JStr ''/tags'', JDict [])])])
        (JDict [(JStr ''openapi'', JStr ''3.0.0''), (JStr ''info'', JDict [(JStr ''title'', JStr ''API'')]),
          (JStr ''paths'', JDict [(JStr ''/users'', JDict [(JStr ''get'', JDict [])]),
                                  (JStr ''/posts'', JDict [(JStr ''get'', JDict [])])])])
     = Inr [classify_endpoint_removal (JStr ''/tags''), classify_endpoint_addition (JStr ''/posts'')] \<and>
   endpoint_removed_paths [classify_endpoint_removal (JStr ''/posts''), classify_endpoint_addition (JStr ''/tags'')]
     = endpoint_added_paths [classify_endpoint_removal (JStr ''/tags''), classify_endpoint_addition (JStr ''/posts'')] \<and>
   endpoint_added_paths [classify_endpoint_removal (JStr ''/posts''), classify_endpoint_addition (JStr ''/tags'')]
     = endpoint_removed_paths [classify_endpoint_removal (JStr ''/tags''), classify_endpoint_addition (JStr ''/posts'')]"
proof -
  let ?a = "[(JStr ''openapi'', JStr ''3.0.0''), (JStr ''info'', JDict [(JStr ''title'', JStr ''API'')]),
          (JStr ''paths'', JDict [(JStr ''/users'', JDict [(JStr ''get'', JDict [])]),
                                  (JStr ''/posts'', JDict [(JStr ''get'', JDict [])])])]"
  let ?b = "[(JStr ''swagger'', JStr ''2.0''), (JStr ''info'', JDict [(JStr ''title'', JStr ''API'')]),
          (JStr ''paths'', JDict [(JStr ''/users'', JDict [(JStr ''get'', JDict [])]),
                                  (JStr ''/tags'', JDict [])])]"
  have va: "validate_spec ?a = Inr ()" and vb: "validate_spec ?b = Inr ()"
    by code_simp+
  have wa: "expected_shape (JDict ?a)" and wb: "expected_shape (JDict ?b)"
    by code_simp+
  have ab: "diff (JDict ?a) (JDict ?b)
      = Inr [classify_endpoint_removal (JStr ''/posts''), classify_endpoint_addition (JStr ''/tags'')]"
    by code_simp
  have ba: "diff (JDict ?b) (JDict ?a)
      = Inr [classify_endpoint_removal (JStr ''/tags''), classify_endpoint_addition (JStr ''/posts'')]"
    by code_simp
  from endpoint_duality [OF va vb wa wb] ab ba show ?thesis
    by simp
qed


section \<open>Comparing a document with itself, end to end\<close>





section \<open>The method and the field of a change\<close>

lemma method_keys_eq:
  assumes "py_getitem paths p = Inr (JDict items)" and "select_methods items = Inr selected"
  shows "method_keys paths p = map fst selected"
  using assms by (simp add: method_keys_def)

lemma operation_block_member:
  assumes "operation_block p m ob" and "c \<in> set ob"
  shows "category c \<in> {''parameter'', ''schema'', ''response''} \<and> path c = p \<and>
         method c = Some (upper m)"
  using assms unfolding operation_block_def by (auto simp: list_all_iff)

lemma path_block_member:
  assumes "path_block p old_methods new_methods b" and "c \<in> set b"
  shows "path c = p \<and>
         (\<exists>m. method c = Some (upper m) \<and>
            (category c = ''method'' \<and> type c = ''breaking'' \<and>
               m \<in> set (map fst old_methods) \<and> m \<notin> set (map fst new_methods) \<or>
             category c = ''method'' \<and> type c = ''non_breaking'' \<and>
               m \<in> set (map fst new_methods) \<and> m \<notin> set (map fst old_methods) \<or>
             category c \<in> {''parameter'', ''schema'', ''response''} \<and>
               m \<in> set (map fst old_methods) \<and> m \<in> set (map fst new_methods)))"
proof -
  from assms(1) obtain ops where
    b: "b = map (classify_method_removal p)
               (filter (\<lambda>m. \<not> has_key new_methods m) (map fst old_methods))
           @ map (classify_method_addition p)
               (filter (\<lambda>m. \<not> has_key old_methods m) (map fst new_methods))
           @ concat ops"
    and l: "list_all2 (\<lambda>m ob. if has_key new_methods m then operation_block p m ob else ob = [])
          (map fst old_methods) ops"
    unfolding path_block_def by blast
  from assms(2) consider
    (removed) "c \<in> set (map (classify_method_removal p)
               (filter (\<lambda>m. \<not> has_key new_methods m) (map fst old_methods)))"
    | (added) "c \<in> set (map (classify_method_addition p)
               (filter (\<lambda>m. \<not> has_key old_methods m) (map fst new_methods)))"
    | (changed) "c \<in> set (concat ops)"
    unfolding b set_append Un_iff by blast
  then show ?thesis
  proof cases
    case removed
    then obtain m where "c = classify_method_removal p m" "m \<in> set (map fst old_methods)"
      "\<not> has_key new_methods m"
      by auto
    then show ?thesis
      by (auto simp: classify_method_removal_def has_key_def)
  next
    case added
    then obtain m where "c = classify_method_addition p m" "m \<in> set (map fst new_methods)"
      "\<not> has_key old_methods m"
      by auto
    then show ?thesis
      by (auto simp: classify_method_addition_def has_key_def)
  next
    case changed
    then obtain ob where ob: "ob \<in> set ops" "c \<in> set ob" by auto
    from list_all2_rightD [OF l ob(1)] obtain m where m: "m \<in> set (map fst old_methods)"
      and i: "if has_key new_methods m then operation_block p m ob else ob = []"
      by blast
    from i ob(2) have h: "has_key new_methods m" and o: "operation_block p m ob"
      by (auto split: if_splits)
    from operation_block_member [OF o ob(2)] m h show ?thesis
      by (auto simp: has_key_def)
  qed
qed

lemma emission_order_member:
  assumes "emission_order old_paths new_paths cs" and "c \<in> set cs"
  shows "(category c = ''endpoint'' \<and> method c = None \<and> field c = None) \<or>
         (\<exists>m. method c = Some (upper m) \<and> lower m \<in> set methods \<and>
            (category c = ''method'' \<and> type c = ''breaking'' \<and>
               m \<in> set (method_keys old_paths (path c)) \<and>
               m \<notin> set (method_keys new_paths (path c)) \<or>
             category c = ''method'' \<and> type c = ''non_breaking'' \<and>
               m \<in> set (method_keys new_paths (path c)) \<and>
               m \<notin> set (method_keys old_paths (path c)) \<or>
             category c \<in> {''parameter'', ''schema'', ''response''} \<and>
               m \<in> set (method_keys old_paths (path c)) \<and>
               m \<in> set (method_keys new_paths (path c))))"
proof -
  from assms(1) obtain olds news blocks where
    cs: "cs = map classify_endpoint_removal (filter (\<lambda>p. py_in p new_paths = Inr False) olds)
           @ map classify_endpoint_addition (filter (\<lambda>p. py_in p old_paths = Inr False) news)
           @ concat blocks"
    and l: "list_all2
          (\<lambda>p b. if py_in p new_paths = Inr True
                 then \<exists>old_items new_items old_methods new_methods.
                        py_getitem old_paths p = Inr (JDict old_items) \<and>
                        py_getitem new_paths p = Inr (JDict new_items) \<and>
                        select_methods old_items = Inr old_methods \<and>
                        select_methods new_items = Inr new_methods \<and>
                        path_block p old_methods new_methods b
                 else b = [])
          olds blocks"
    unfolding emission_order_def by blast
  from assms(2) consider
    (removed) "c \<in> set (map classify_endpoint_removal
                 (filter (\<lambda>p. py_in p new_paths = Inr False) olds))"
    | (added) "c \<in> set (map classify_endpoint_addition
                 (filter (\<lambda>p. py_in p old_paths = Inr False) news))"
    | (blocks) "c \<in> set (concat blocks)"
    unfolding cs set_append Un_iff by blast
  then show ?thesis
  proof cases
    case removed
    then show ?thesis by (auto simp: classify_endpoint_removal_def)
  next
    case added
    then show ?thesis by (auto simp: classify_endpoint_addition_def)
  next
    case blocks
    then obtain b where b: "b \<in> set blocks" "c \<in> set b" by auto
    from list_all2_rightD [OF l b(1)] obtain p where
      i: "if py_in p new_paths = Inr True
                 then \<exists>old_items new_items old_methods new_methods.
                        py_getitem old_paths p = Inr (JDict old_items) \<and>
                        py_getitem new_paths p = Inr (JDict new_items) \<and>
                        select_methods old_items = Inr old_methods \<and>
                        select_methods new_items = Inr new_methods \<and>
                        path_block p old_methods new_methods b
                 else b = []"
      by blast
    with b(2) obtain old_items new_items old_methods new_methods where
      og: "py_getitem old_paths p = Inr (JDict old_items)"
      and ng: "py_getitem new_paths p = Inr (JDict new_items)"
      and os: "select_methods old_items = Inr old_methods"
      and ns: "select_methods new_items = Inr new_methods"
      and pb: "path_block p old_methods new_methods b"
      by (auto split: if_splits)
    note ok = method_keys_eq [OF og os] and nk = method_keys_eq [OF ng ns]
    from path_block_member [OF pb b(2)] obtain m where p: "path c = p"
      and m: "method c = Some (upper m)"
      and k: "category c = ''method'' \<and> type c = ''breaking'' \<and>
               m \<in> set (map fst old_methods) \<and> m \<notin> set (map fst new_methods) \<or>
             category c = ''method'' \<and> type c = ''non_breaking'' \<and>
               m \<in> set (map fst new_methods) \<and> m \<notin> set (map fst old_methods) \<or>
             category c \<in> {''parameter'', ''schema'', ''response''} \<and>
               m \<in> set (map fst old_methods) \<and> m \<in> set (map fst new_methods)"
      by blast
    from k have "m \<in> set (map fst old_methods) \<or> m \<in> set (map fst new_methods)"
      by blast
    then have lm: "lower m \<in> set methods"
      using select_methods_key [OF os] select_methods_key [OF ns] by blast
    from m lm k show ?thesis
      unfolding p ok nk by blast
  qed
qed

text \<open>
  Claim C10. Every change that \<open>diff\<close> returns is either in the endpoint category, with
  its method and its field unset, or in the method, parameter, schema or response category,
  and then its method is the upper-cased form of the method key that the change is about:
  a key \<open>m\<close> of the path item found at the path of the change, that the old document has
  and the new one lacks for a removed method, that the new document has and the old one
  lacks for an added method, and that both have for a change within an operation. That
  upper-cased form is the name of one of the seven HTTP methods.
\<close>

theorem emitted_method_fields:
  assumes "diff old_spec new_spec = Inr cs" and "c \<in> set cs"
  shows "\<exists>old_paths new_paths.
           normalized_paths old_spec = Inr old_paths \<and> normalized_paths new_spec = Inr new_paths \<and>
           ((category c = ''endpoint'' \<and> method c = None \<and> field c = None) \<or>
            (\<exists>m. method c = Some (upper m) \<and>
               upper m \<in> set [''GET'', ''POST'', ''PUT'', ''DELETE'', ''PATCH'', ''OPTIONS'', ''HEAD''] \<and>
               (category c = ''method'' \<and> type c = ''breaking'' \<and>
                  m \<in> set (method_keys old_paths (path c)) \<and>
                  m \<notin> set (method_keys new_paths (path c)) \<or>
                category c = ''method'' \<and> type c = ''non_breaking'' \<and>
                  m \<in> set (method_keys new_paths (path c)) \<and>
                  m \<notin> set (method_keys old_paths (path c)) \<or>
                category c \<in> {''parameter'', ''schema'', ''response''} \<and>
                  m \<in> set (method_keys old_paths (path c)) \<and>
                  m \<in> set (method_keys new_paths (path c)))))"
proof -
  from diff_order [OF assms(1)] obtain old_paths new_paths where
    o: "normalized_paths old_spec = Inr old_paths" and n: "normalized_paths new_spec = Inr new_paths"
    and e: "emission_order old_paths new_paths cs"
    by blast
  from emission_order_member [OF e assms(2)] upper_method_key
  have "(category c = ''endpoint'' \<and> method c = None \<and> field c = None) \<or>
            (\<exists>m. method c = Some (upper m) \<and>
               upper m \<in> set [''GET'', ''POST'', ''PUT'', ''DELETE'', ''PATCH'', ''OPTIONS'', ''HEAD''] \<and>
               (category c = ''method'' \<and> type c = ''breaking'' \<and>
                  m \<in> set (method_keys old_paths (path c)) \<and>
                  m \<notin> set (method_keys new_paths (path c)) \<or>
                category c = ''method'' \<and> type c = ''non_breaking'' \<and>
                  m \<in> set (method_keys new_paths (path c)) \<and>
                  m \<notin> set (method_keys old_paths (path c)) \<or>
                category c \<in> {''parameter'', ''schema'', ''response''} \<and>
                  m \<in> set (method_keys old_paths (path c)) \<and>
                  m \<in> set (method_keys new_paths (path c))))"
    by blast
  with o n show ?thesis by blast
qed

theorem emitted_method_fields_witness:
  "diff (JDict [(JStr ''openapi'', JStr ''3.0.0''),
          (JStr ''paths'', JDict [(JStr ''/users'',
              JDict [(JStr ''GET'', JDict [(JStr ''responses'', JDict [(JStr ''200'', JDict [])])]),
                     (JStr ''post'', JDict [])]),
            (JStr ''/posts'', JDict [])])])
        (JDict [(JStr ''openapi'', JStr ''3.0.0''),
          (JStr ''paths'', JDict [(JStr ''/users'', JDict [(JStr ''get'', JDict [])])])])
     = Inr [classify_endpoint_removal (JStr ''/posts''),
            classify_method_removal (JStr ''/users'') ''post'',
            \<lparr>type = ''breaking'', category = ''response'', path = JStr ''/users'',
             method = Some ''GET'', field = Some (JStr ''Response 200''),
             message = ''Success response (2xx) removed''\<rparr>] \<and>
   method (classify_endpoint_removal (JStr ''/posts'')) = None \<and>
   field (classify_endpoint_removal (JStr ''/posts'')) = None \<and>
   method_keys
     (JDict [(JStr ''/users'',
                JDict [(JStr ''get'', JDict [(JStr ''responses'', JDict [(JStr ''200'', JDict [])])]),
                       (JStr ''post'', JDict [])]),
             (JStr ''/posts'', JDict [])]) (JStr ''/users'') = [''get'', ''post''] \<and>
   method_keys (JDict [(JStr ''/users'', JDict [(JStr ''get'', JDict [])])]) (JStr ''/users'')
     = [''get''] \<and>
   (\<exists>m. method (classify_method_removal (JStr ''/users'') ''post'') = Some (upper m) \<and>
        m \<in> set [''get'', ''post''] \<and> m \<notin> set [''get''])"
proof -
  let ?old = "JDict [(JStr ''openapi'', JStr ''3.0.0''),
          (JStr ''paths'', JDict [(JStr ''/users'',
              JDict [(JStr ''GET'', JDict [(JStr ''responses'', JDict [(JStr ''200'', JDict [])])]),
                     (JStr ''post'', JDict [])]),
            (JStr ''/posts'', JDict [])])]"
  let ?new = "JDict [(JStr ''openapi'', JStr ''3.0.0''),
          (JStr ''paths'', JDict [(JStr ''/users'', JDict [(JStr ''get'', JDict [])])])]"
  let ?op = "JDict [(JStr ''/users'',
                JDict [(JStr ''get'', JDict [(JStr ''responses'', JDict [(JStr ''200'', JDict [])])]),
                       (JStr ''post'', JDict [])]),
             (JStr ''/posts'', JDict [])]"
  let ?np = "JDict [(JStr ''/users'', JDict [(JStr ''get'', JDict [])])]"
  let ?c1 = "classify_endpoint_removal (JStr ''/posts'')"
  let ?c2 = "classify_method_removal (JStr ''/users'') ''post''"
  let ?c3 = "\<lparr>type = ''breaking'', category = ''response'', path = JStr ''/users'',
             method = Some ''GET'', field = Some (JStr ''Response 200''),
             message = ''Success response (2xx) removed''\<rparr>"
  have d: "diff ?old ?new = Inr [?c1, ?c2, ?c3]"
    by code_simp
  have o: "normalized_paths ?old = Inr ?op" and n: "normalized_paths ?new = Inr ?np"
    by code_simp+
  have ko: "method_keys ?op (JStr ''/users'') = [''get'', ''post'']"
    and kn: "method_keys ?np (JStr ''/users'') = [''get'']"
    by code_simp+
  have e1: "category ?c1 = ''endpoint''"
    by (simp add: classify_endpoint_removal_def)
  have e2: "category ?c2 = ''method''" "type ?c2 = ''breaking''" "path ?c2 = JStr ''/users''"
    by (simp_all add: classify_method_removal_def)
  have 1: "method ?c1 = None \<and> field ?c1 = None"
    using emitted_method_fields [OF d, of ?c1] e1 by auto
  have 2: "\<exists>m. method ?c2 = Some (upper m) \<and> m \<in> set [''get'', ''post''] \<and> m \<notin> set [''get'']"
    using emitted_method_fields [OF d, of ?c2] e2 o n ko kn by auto
  from d 1 2 ko kn show ?thesis by blast
qed


end
